theory Spec2Isabelle
  imports Complex_Main "HOL-Library.Word"
begin

unbundle bit_operations_syntax

section \<open>JavaScript numbers, typed arrays and views\<close>

text \<open>
  The source is TypeScript. A JavaScript number that holds an integer of magnitude below
  \<open>2 ^ 53\<close> is exact, and \<open>+\<close> on such numbers is integer addition as long as the sum
  stays below \<open>2 ^ 53\<close>; numbers are therefore modelled as \<open>int\<close>, and lemma
  \<open>rounds_exact\<close> below shows that, from a state of signed 32-bit numbers, the locals
  and the sums of \<open>process\<close> stay far below that bound.
  The bitwise operators convert their operands with ToInt32 (the value modulo \<open>2 ^ 32\<close>,
  read as two's complement) and return a signed 32-bit number. Elements of a
  \<open>Uint32Array\<close> are \<open>32 word\<close>, elements of a \<open>Uint8Array\<close> are \<open>8 word\<close>; reading an
  element gives the unsigned number.
\<close>

type_synonym u8 = "8 word"
type_synonym u32 = "32 word"
type_synonym addr = nat

definition ToInt32 :: "int \<Rightarrow> int" where
  "ToInt32 x = sint (word_of_int x :: u32)"

definition ToUint32 :: "int \<Rightarrow> int" where
  "ToUint32 x = uint (word_of_int x :: u32)"

text \<open>\<open>x & y\<close>, \<open>x | y\<close>, \<open>x ^ y\<close> and \<open>~x\<close> on numbers.\<close>

definition js_and :: "int \<Rightarrow> int \<Rightarrow> int" where
  "js_and x y = sint ((word_of_int x :: u32) AND word_of_int y)"

definition js_or :: "int \<Rightarrow> int \<Rightarrow> int" where
  "js_or x y = sint ((word_of_int x :: u32) OR word_of_int y)"

definition js_xor :: "int \<Rightarrow> int \<Rightarrow> int" where
  "js_xor x y = sint ((word_of_int x :: u32) XOR word_of_int y)"

definition js_not :: "int \<Rightarrow> int" where
  "js_not x = sint (NOT (word_of_int x :: u32))"

text \<open>
  Modelled from the spec: \<open>Chi\<close> is imported from \<open>_md.js\<close>, which is not among the
  sources. The spec's phase table gives what \<open>process\<close> gets from it: for phase 1
  \<open>Chi(B, C, D)\<close> is \<open>(B \<and> C) \<or> (\<not>B \<and> D)\<close> and for phase 2 \<open>Chi(D, B, C)\<close> is
  \<open>(D \<and> B) \<or> (\<not>D \<and> C)\<close>, on 32-bit words.
\<close>

definition Chi :: "int \<Rightarrow> int \<Rightarrow> int \<Rightarrow> int" where
  "Chi a b c = js_or (js_and a b) (js_and (js_not a) c)"

text \<open>
  Modelled from the spec: \<open>rotl\<close> is imported from \<open>utils.js\<close>, which is not among the
  sources. The spec's glossary: \<open>rotl32(x, n)\<close> is the left rotation of a 32-bit word by
  \<open>n\<close> bits. The argument is a number and is taken modulo \<open>2 ^ 32\<close>, as every bitwise
  operator of the language does; the result is returned as a signed 32-bit number.
\<close>

definition rotl :: "int \<Rightarrow> nat \<Rightarrow> int" where
  "rotl word shift = sint (word_rotl shift (word_of_int word :: u32))"

text \<open>
  \<open>DataView.prototype.getUint32(byteOffset, true)\<close> on the bytes a view ranges over:
  a RangeError when the offset is negative or the four bytes do not lie inside the view,
  otherwise the little-endian value of the four bytes.
\<close>

datatype error = RangeError

definition le_u32 :: "u8 \<Rightarrow> u8 \<Rightarrow> u8 \<Rightarrow> u8 \<Rightarrow> u32" where
  "le_u32 b0 b1 b2 b3 =
     ucast b0 + push_bit 8 (ucast b1) + push_bit 16 (ucast b2) + push_bit 24 (ucast b3)"

definition le_u32_at :: "u8 list \<Rightarrow> nat \<Rightarrow> u32" where
  "le_u32_at bs n = le_u32 (bs ! n) (bs ! (n + 1)) (bs ! (n + 2)) (bs ! (n + 3))"

definition getUint32 :: "u8 list \<Rightarrow> int \<Rightarrow> error + u32" where
  "getUint32 bs byteOffset =
     (if byteOffset < 0 \<or> int (length bs) < byteOffset + 4 then Inl RangeError
      else Inr (le_u32_at bs (nat byteOffset)))"

section \<open>The module: constants, the scratch buffer, the class MD5\<close>

text \<open>Per-round constants (\<open>MD5_K\<close>) and the initial state (\<open>IV\<close>), as the literals of the source.\<close>

definition MD5_K :: "u32 list" where
  "MD5_K =
    [0xd76aa478, 0xe8c7b756, 0x242070db, 0xc1bdceee, 0xf57c0faf, 0x4787c62a, 0xa8304613, 0xfd469501,
     0x698098d8, 0x8b44f7af, 0xffff5bb1, 0x895cd7be, 0x6b901122, 0xfd987193, 0xa679438e, 0x49b40821,
     0xf61e2562, 0xc040b340, 0x265e5a51, 0xe9b6c7aa, 0xd62f105d, 0x2441453,  0xd8a1e681, 0xe7d3fbc8,
     0x21e1cde6, 0xc33707d6, 0xf4d50d87, 0x455a14ed, 0xa9e3e905, 0xfcefa3f8, 0x676f02d9, 0x8d2a4c8a,
     0xfffa3942, 0x8771f681, 0x6d9d6122, 0xfde5380c, 0xa4beea44, 0x4bdecfa9, 0xf6bb4b60, 0xbebfbc70,
     0x289b7ec6, 0xeaa127fa, 0xd4ef3085, 0x4881d05, 0xd9d4d039, 0xe6db99e5, 0x1fa27cf8, 0xc4ac5665,
     0xf4292244, 0x432aff97, 0xab9423a7, 0xfc93a039, 0x655b59c3, 0x8f0ccc92, 0xffeff47d, 0x85845dd1,
     0x6fa87e4f, 0xfe2ce6e0, 0xa3014314, 0x4e0811a1, 0xf7537e82, 0xbd3af235, 0x2ad7d2bb, 0xeb86d391]"

definition IV :: "u32 list" where
  "IV = [0x67452301, 0xefcdab89, 0x98badcfe, 0x10325476]"

text \<open>
  An instance of the class: the four private fields \<open>A\<close>, \<open>B\<close>, \<open>C\<close>, \<open>D\<close> of the source
  and the field \<open>buffer\<close> that \<open>destroy\<close> uses, a reference to a byte array. The class
  extends \<open>HashMD\<close>, whose declaration is not among the sources: every other inherited
  field is in the extension part of the record.
\<close>

record MD5 =
  A :: int
  B :: int
  C :: int
  D :: int
  buffer :: addr

text \<open>A \<open>DataView\<close>: the byte array it ranges over, and the range.\<close>

record DataView =
  dv_buffer :: addr
  byteOffset :: nat
  byteLength :: nat

text \<open>
  The store. \<open>MD5_W\<close> is the module-level \<open>Uint32Array(16)\<close> of the source: there is one
  for the module, it is not exported and has a byte array of its own, so no view and no
  instance buffer aliases it. \<open>bytes\<close> holds the byte arrays by address and \<open>objs\<close> the
  instances by address.
\<close>

record 'a heap =
  MD5_W :: "u32 list"
  bytes :: "addr \<Rightarrow> u8 list"
  objs :: "addr \<Rightarrow> 'a MD5_scheme"

definition view_bytes :: "'a heap \<Rightarrow> DataView \<Rightarrow> u8 list" where
  "view_bytes h view = take (byteLength view) (drop (byteOffset view) (bytes h (dv_buffer view)))"

text \<open>
  The scratch buffer that the methods of the instance \<open>this\<close> work on. \<open>process\<close> and
  \<open>roundClean\<close> name the module-level \<open>MD5_W\<close>, whichever the instance.
\<close>

definition scratch_of :: "'a heap \<Rightarrow> addr \<Rightarrow> u32 list" where
  "scratch_of h this = MD5_W h"

subsection \<open>get and set\<close>

definition MD5_get :: "'a heap \<Rightarrow> addr \<Rightarrow> int \<times> int \<times> int \<times> int" where
  "MD5_get h this = (let obj = objs h this in (A obj, B obj, C obj, D obj))"

definition MD5_set :: "'a heap \<Rightarrow> addr \<Rightarrow> int \<Rightarrow> int \<Rightarrow> int \<Rightarrow> int \<Rightarrow> 'a heap" where
  "MD5_set h this a b c d =
     h\<lparr>objs := (objs h)(this := (objs h this)
          \<lparr>A := ToInt32 a, B := ToInt32 b, C := ToInt32 c, D := ToInt32 d\<rparr>)\<rparr>"

subsection \<open>process\<close>

text \<open>
  The first loop: \<open>for (let i = 0; i < 16; i++, offset += 4) MD5_W[i] = view.getUint32(offset, true)\<close>.
  A read that throws leaves the loop with the words written so far.
\<close>

function load_W :: "u8 list \<Rightarrow> nat \<Rightarrow> int \<Rightarrow> u32 list \<Rightarrow> error option \<times> u32 list" where
  "load_W vb i offset W =
     (if i < 16 then
        (case getUint32 vb offset of
           Inl e \<Rightarrow> (Some e, W)
         | Inr w \<Rightarrow> load_W vb (i + 1) (offset + 4) (W[i := w]))
      else (None, W))"
  by pat_completeness auto
termination
  by (relation "measure (\<lambda>(vb, i, offset, W). 16 - i)") auto

declare load_W.simps [simp del]

text \<open>The body of the main loop, on the locals \<open>A\<close>, \<open>B\<close>, \<open>C\<close>, \<open>D\<close>.\<close>

definition loop_body :: "u32 list \<Rightarrow> nat \<Rightarrow> int \<times> int \<times> int \<times> int \<Rightarrow> int \<times> int \<times> int \<times> int" where
  "loop_body W i r =
     (case r of (a, b, c, d) \<Rightarrow>
        (let (F, g, s) =
               (if i < 16 then (Chi b c d, i, [7, 12, 17, 22 :: nat])
                else if i < 32 then (Chi d b c, (5 * i + 1) mod 16, [5, 9, 14, 20])
                else if i < 48 then (js_xor (js_xor b c) d, (3 * i + 5) mod 16, [4, 11, 16, 23])
                else (js_xor c (js_or b (js_not d)), (7 * i) mod 16, [6, 10, 15, 21]));
             F = F + a + uint (MD5_K ! i) + uint (W ! g)
         in (d, b + rotl F (s ! (i mod 4)), b, c)))"

function rounds :: "u32 list \<Rightarrow> nat \<Rightarrow> int \<times> int \<times> int \<times> int \<Rightarrow> int \<times> int \<times> int \<times> int" where
  "rounds W i r = (if i < 64 then rounds W (i + 1) (loop_body W i r) else r)"
  by pat_completeness auto
termination
  by (relation "measure (\<lambda>(W, i, r). 64 - i)") auto

declare rounds.simps [simp del]

text \<open>The four locals of the main loop lie within \<open>M\<close> in magnitude.\<close>

definition regs_within :: "int \<Rightarrow> int \<times> int \<times> int \<times> int \<Rightarrow> bool" where
  "regs_within M r = (case r of (a, b, c, d) \<Rightarrow> \<bar>a\<bar> \<le> M \<and> \<bar>b\<bar> \<le> M \<and> \<bar>c\<bar> \<le> M \<and> \<bar>d\<bar> \<le> M)"

definition MD5_process :: "'a heap \<Rightarrow> addr \<Rightarrow> DataView \<Rightarrow> int \<Rightarrow> error option \<times> 'a heap" where
  "MD5_process h this view offset =
     (case load_W (view_bytes h view) 0 offset (MD5_W h) of
        (Some e, W) \<Rightarrow> (Some e, h\<lparr>MD5_W := W\<rparr>)
      | (None, W) \<Rightarrow>
          (let h1 = h\<lparr>MD5_W := W\<rparr>;
               obj = objs h1 this;
               (a, b, c, d) = rounds W 0 (A obj, B obj, C obj, D obj);
               a = ToInt32 (a + A obj);
               b = ToInt32 (b + B obj);
               c = ToInt32 (c + C obj);
               d = ToInt32 (d + D obj)
           in (None, MD5_set h1 this a b c d)))"

subsection \<open>roundClean and destroy\<close>

definition MD5_roundClean :: "'a heap \<Rightarrow> addr \<Rightarrow> 'a heap" where
  "MD5_roundClean h this = h\<lparr>MD5_W := map (\<lambda>_. 0) (MD5_W h)\<rparr>"

definition MD5_destroy :: "'a heap \<Rightarrow> addr \<Rightarrow> 'a heap" where
  "MD5_destroy h this =
     (let h1 = MD5_set h this 0 0 0 0;
          buf = buffer (objs h1 this)
      in h1\<lparr>bytes := (bytes h1)(buf := map (\<lambda>_. 0) (bytes h1 buf))\<rparr>)"

subsection \<open>The constructor\<close>

text \<open>
  \<open>new MD5()\<close> at the fresh address \<open>this\<close>: the field initialisers of the source
  (\<open>A = IV[0] | 0\<close> and so on). Modelled from the spec: the constructor of \<open>HashMD\<close>,
  called as \<open>super(64, 16, 8, true)\<close>, is not among the sources; the engine buffers
  64-byte blocks, so the instance gets a fresh zeroed byte array of the block length 64 at
  the address \<open>buf\<close>, and \<open>rest\<close> stands for the other inherited fields.
\<close>

definition MD5_new :: "'a heap \<Rightarrow> addr \<Rightarrow> addr \<Rightarrow> 'a \<Rightarrow> 'a heap" where
  "MD5_new h this buf rest =
     h\<lparr>bytes := (bytes h)(buf := replicate 64 0),
       objs := (objs h)(this :=
         \<lparr>A = ToInt32 (uint (IV ! 0)), B = ToInt32 (uint (IV ! 1)),
          C = ToInt32 (uint (IV ! 2)), D = ToInt32 (uint (IV ! 3)),
          buffer = buf, \<dots> = rest\<rparr>)\<rparr>"

section \<open>The compression function as the specification words it\<close>

text \<open>
  The HashState of the specification: four unsigned 32-bit words. An instance holds each
  as a number; the word is the number modulo \<open>2 ^ 32\<close>.
\<close>

type_synonym HashState = "u32 \<times> u32 \<times> u32 \<times> u32"

definition words_of :: "int \<times> int \<times> int \<times> int \<Rightarrow> HashState" where
  "words_of r = (case r of (a, b, c, d) \<Rightarrow> (word_of_int a, word_of_int b, word_of_int c, word_of_int d))"

definition hash_state :: "'a MD5_scheme \<Rightarrow> HashState" where
  "hash_state obj = (word_of_int (A obj), word_of_int (B obj), word_of_int (C obj), word_of_int (D obj))"

text \<open>The MessageSchedule: \<open>W[i]\<close> is the little-endian word at \<open>block[4i .. 4i+3]\<close>, for \<open>i\<close> in 0..15.\<close>

definition spec_W :: "u8 list \<Rightarrow> u32 list" where
  "spec_W block = map (\<lambda>i. le_u32_at block (4 * i)) [0..<16]"

text \<open>The phase table: \<open>F\<close>, \<open>g\<close> and the shift group of round \<open>i\<close>.\<close>

definition spec_F :: "nat \<Rightarrow> u32 \<Rightarrow> u32 \<Rightarrow> u32 \<Rightarrow> u32" where
  "spec_F i b c d =
     (if i < 16 then (b AND c) OR (NOT b AND d)
      else if i < 32 then (d AND b) OR (NOT d AND c)
      else if i < 48 then b XOR c XOR d
      else c XOR (b OR NOT d))"

definition spec_g :: "nat \<Rightarrow> nat" where
  "spec_g i =
     (if i < 16 then i
      else if i < 32 then (5 * i + 1) mod 16
      else if i < 48 then (3 * i + 5) mod 16
      else (7 * i) mod 16)"

definition spec_shiftGroup :: "nat \<Rightarrow> nat list" where
  "spec_shiftGroup i =
     (if i < 16 then [7, 12, 17, 22]
      else if i < 32 then [5, 9, 14, 20]
      else if i < 48 then [4, 11, 16, 23]
      else [6, 10, 15, 21])"

text \<open>
  One round: \<open>T = (F + A + K[i] + W[g(i)]) mod 2^32\<close>, then
  \<open>A\<leftarrow>D; D\<leftarrow>C; C\<leftarrow>B; B\<leftarrow>(B + rotl32(T, shiftGroup[i mod 4])) mod 2^32\<close>.
  Addition of 32-bit words is addition modulo \<open>2 ^ 32\<close>.
\<close>

definition spec_round :: "u32 list \<Rightarrow> nat \<Rightarrow> HashState \<Rightarrow> HashState" where
  "spec_round W i s =
     (case s of (a, b, c, d) \<Rightarrow>
        (let T = spec_F i b c d + a + MD5_K ! i + W ! spec_g i
         in (d, b + word_rotl (spec_shiftGroup i ! (i mod 4)) T, b, c)))"

text \<open>Sixty-four rounds, then the feed-forward into the state before the block.\<close>

definition spec_compress :: "HashState \<Rightarrow> u8 list \<Rightarrow> HashState" where
  "spec_compress s block =
     (case s of (a0, b0, c0, d0) \<Rightarrow>
        (case fold (spec_round (spec_W block)) [0..<64] s of
           (a, b, c, d) \<Rightarrow> (a0 + a, b0 + b, c0 + c, d0 + d)))"

text \<open>The 64 bytes that \<open>process\<close> is asked to read: those from \<open>offset\<close> on.\<close>

definition block_at :: "u8 list \<Rightarrow> int \<Rightarrow> u8 list" where
  "block_at bs offset = take 64 (drop (nat offset) bs)"

section \<open>The engine around the core\<close>

text \<open>
  Modelled from the spec: the engine that drives the core (the class \<open>HashMD\<close> of
  \<open>_md.js\<close> and \<open>wrapConstructor\<close> of \<open>utils.js\<close>) is not among the sources. The spec
  gives its contract: it pads the message with the byte \<open>0x80\<close>, zero bytes and the
  length in bits as a 64-bit little-endian number, up to a multiple of 64 bytes; it calls
  \<open>process\<close> once for each 64-byte block, in order, and \<open>roundClean\<close> after each block;
  and it writes the four state words as 16 bytes, little-endian within each word, A first.
\<close>

definition le_bytes :: "nat \<Rightarrow> int \<Rightarrow> u8 list" where
  "le_bytes n x = map (\<lambda>k. word_of_int (x div 256 ^ k)) [0..<n]"

definition pad :: "u8 list \<Rightarrow> u8 list" where
  "pad msg = msg @ [0x80] @ replicate ((119 - length msg mod 64) mod 64) 0
               @ le_bytes 8 (8 * int (length msg))"

fun process_blocks :: "'a heap \<Rightarrow> addr \<Rightarrow> DataView \<Rightarrow> int \<Rightarrow> nat \<Rightarrow> error option \<times> 'a heap" where
  "process_blocks h this view pos 0 = (None, h)"
| "process_blocks h this view pos (Suc n) =
     (case MD5_process h this view pos of
        (Some e, h') \<Rightarrow> (Some e, h')
      | (None, h') \<Rightarrow> process_blocks (MD5_roundClean h' this) this view (pos + 64) n)"

text \<open>
  One digest computation: a new instance at address 0 with its buffer at address 1, the
  padded message at address 2 under a view over all of it.
\<close>

definition fresh_heap :: "unit heap" where
  "fresh_heap = \<lparr>MD5_W = replicate 16 0, bytes = (\<lambda>_. []),
                 objs = (\<lambda>_. \<lparr>A = 0, B = 0, C = 0, D = 0, buffer = 0\<rparr>)\<rparr>"

definition digest_heap :: "u8 list \<Rightarrow> unit heap" where
  "digest_heap data = (MD5_new fresh_heap 0 1 ())\<lparr>bytes := (bytes (MD5_new fresh_heap 0 1 ()))(2 := data)\<rparr>"

definition md5 :: "u8 list \<Rightarrow> error + u8 list" where
  "md5 msg =
     (let data = pad msg;
          view = \<lparr>dv_buffer = 2, byteOffset = 0, byteLength = length data\<rparr>
      in case process_blocks (digest_heap data) 0 view 0 (length data div 64) of
           (Some e, h) \<Rightarrow> Inl e
         | (None, h) \<Rightarrow>
             (case MD5_get h 0 of (a, b, c, d) \<Rightarrow>
                Inr (le_bytes 4 a @ le_bytes 4 b @ le_bytes 4 c @ le_bytes 4 d)))"

text \<open>The bytes of an ASCII string.\<close>

definition ascii_bytes :: "string \<Rightarrow> u8 list" where
  "ascii_bytes s = map (\<lambda>c. of_nat (of_char c)) s"

section \<open>Fixed-point bounds for the sines of 1 to 64\<close>

text \<open>
  The table \<open>MD5_K\<close> is compared with \<open>floor (2^32 * |sin (i + 1)|)\<close> by bounding each
  sine in fixed-point arithmetic with the scale \<open>2 ^ 64\<close>: \<open>sin 1\<close>, \<open>sin 2\<close> and
  \<open>2 cos 2\<close> come from their series, the others from
  \<open>sin (x + 2) = 2 cos 2 * sin x - sin (x - 2)\<close>, each value with a bound on its error.
\<close>

definition fx :: int where
  "fx = 2 ^ 64"

definition sin1_fx :: int where
  "sin1_fx = 15522399902203605025"

definition sin2_fx :: int where
  "sin2_fx = 16773576919535988477"

definition cos2x2_fx :: int where
  "cos2x2_fx = - 15353108381737952546"

text \<open>
  \<open>fx_ok (s, e) k\<close>: every real \<open>t\<close> with \<open>|fx * t - s| \<le> e\<close> has
  \<open>floor (2^32 * |t|) = k\<close>.
\<close>

definition fx_ok :: "int \<times> int \<Rightarrow> int \<Rightarrow> bool" where
  "fx_ok p k =
     (case p of (s, e) \<Rightarrow>
        (if 0 < s - e then k * fx \<le> 2 ^ 32 * (s - e) \<and> 2 ^ 32 * (s + e) < (k + 1) * fx
         else s + e < 0 \<and> k * fx \<le> 2 ^ 32 * (- s - e) \<and> 2 ^ 32 * (e - s) < (k + 1) * fx))"

text \<open>
  One step of \<open>sin (x + 2) = 2 cos 2 * sin x - sin (x - 2)\<close> on approximations with
  their error bounds: \<open>a\<close> stands for \<open>sin (x - 2)\<close> and \<open>c\<close> for \<open>sin x\<close>.
\<close>

definition fx_next :: "int \<times> int \<Rightarrow> int \<times> int \<Rightarrow> int \<times> int" where
  "fx_next a c = ((cos2x2_fx * fst c) div fx - fst a, snd a + snd c + 2)"

text \<open>
  The table entries from some position on against a window of four consecutive
  approximations, the last of them for the entry at the head.
\<close>

fun fx_check :: "int \<times> int \<Rightarrow> int \<times> int \<Rightarrow> int \<times> int \<Rightarrow> int \<times> int \<Rightarrow> u32 list \<Rightarrow> bool" where
  "fx_check a b c d [] = True"
| "fx_check a b c d (k # ks) = (fx_ok d (uint k) \<and> fx_check b c d (fx_next a c) ks)"

definition sine_table_ok :: "u32 list \<Rightarrow> bool" where
  "sine_table_ok ks = fx_check (- sin2_fx, 1) (- sin1_fx, 1) (0, 0) (sin1_fx, 1) ks"

text \<open>\<open>fx_near x (s, e)\<close>: \<open>s\<close> approximates \<open>fx * sin x\<close> within \<open>e\<close>.\<close>

definition fx_near :: "real \<Rightarrow> int \<times> int \<Rightarrow> bool" where
  "fx_near x p = (\<bar>real_of_int fx * sin x - real_of_int (fst p)\<bar> \<le> real_of_int (snd p))"

text \<open>
  The terms \<open>sin_coeff n * x ^ n\<close> and \<open>cos_coeff n * x ^ n\<close> of the series of sine
  and cosine, and their partial sums below \<open>n\<close>.
\<close>

primrec taylor :: "real \<Rightarrow> nat \<Rightarrow> real \<times> real \<times> real \<times> real" where
  "taylor x 0 = (0, 1, 0, 0)"
| "taylor x (Suc n) =
     (case taylor x n of (st, ct, ss, cs) \<Rightarrow>
        (ct * x / real (Suc n), - st * x / real (Suc n), ss + st, cs + ct))"

section \<open>Example stores\<close>

text \<open>
  A store with two instances, at the addresses 0 and 3, their buffers at 1 and 4, and a
  64-byte input at address 2 with a view over all of it. The scratch buffer holds what
  some earlier block left there.
\<close>

definition example_heap :: "unit heap" where
  "example_heap =
     \<lparr>MD5_W = [1, 2, 3, 4, 5, 6, 7, 8, 9, 10, 11, 12, 13, 14, 15, 16],
      bytes = (\<lambda>_. [])(1 := replicate 64 255, 2 := replicate 64 1, 4 := replicate 64 7),
      objs = (\<lambda>_. \<lparr>A = 0, B = 0, C = 0, D = 0, buffer = 0\<rparr>)
        (0 := \<lparr>A = 1732584193, B = - 271733879, C = - 1732584194, D = 271733878, buffer = 1\<rparr>,
         3 := \<lparr>A = 5, B = - 6, C = 7, D = - 8, buffer = 4\<rparr>)\<rparr>"

definition example_view :: DataView where
  "example_view = \<lparr>dv_buffer = 2, byteOffset = 0, byteLength = 64\<rparr>"

section \<open>Arithmetic of the number model\<close>

lemma ToInt32_eval: "ToInt32 x = (x + 2147483648) mod 4294967296 - 2147483648"
  unfolding ToInt32_def
  by (simp add: sint_uint uint_word_of_int signed_take_bit_eq_take_bit_shift take_bit_eq_mod
      mod_add_left_eq)

lemma ToInt32_range: "- 2147483648 \<le> ToInt32 x \<and> ToInt32 x < 2147483648"
  unfolding ToInt32_eval
  using pos_mod_sign [of 4294967296 "x + 2147483648"] pos_mod_bound [of 4294967296 "x + 2147483648"]
  by simp

lemma ToInt32_cong: "ToInt32 x mod 4294967296 = x mod 4294967296"
  unfolding ToInt32_eval
  by (simp add: mod_diff_left_eq)

lemma ToInt32_word: "(word_of_int (ToInt32 x) :: u32) = word_of_int x"
  by (simp add: ToInt32_def)

lemma ToInt32_idem: "ToInt32 (ToInt32 x) = ToInt32 x"
  by (simp add: ToInt32_def)

lemma ToInt32_lower: "- (2 ^ 31) \<le> ToInt32 x"
  using ToInt32_range [of x] by simp

lemma ToInt32_upper: "ToInt32 x < 2 ^ 31"
  using ToInt32_range [of x] by simp

lemma ToInt32_mod: "ToInt32 x mod 2 ^ 32 = x mod 2 ^ 32"
  using ToInt32_cong [of x] by simp

section \<open>get, set and roundClean\<close>

lemma get_set: "MD5_get (MD5_set h this a b c d) this = (ToInt32 a, ToInt32 b, ToInt32 c, ToInt32 d)"
  by (simp add: MD5_get_def MD5_set_def)

lemma set_frame:
  "MD5_W (MD5_set h this a b c d) = MD5_W h"
  "bytes (MD5_set h this a b c d) = bytes h"
  "buffer (objs (MD5_set h this a b c d) r) = buffer (objs h r)"
  "MD5.more (objs (MD5_set h this a b c d) r) = MD5.more (objs h r)"
  "r \<noteq> this \<Longrightarrow> objs (MD5_set h this a b c d) r = objs h r"
  by (simp_all add: MD5_set_def)

text \<open>
  Claim C4, as stated, at an input: \<open>set(0x80000000, 0, 0, 0)\<close> followed by \<open>get()\<close>.
  The claim promises the arguments reduced modulo \<open>2 ^ 32\<close>, that is \<open>2147483648\<close> in the
  first component; \<open>A | 0\<close> stores the signed number \<open>- 2147483648\<close>, and \<open>get\<close>
  returns it.
\<close>

theorem get_after_set_counterexample:
  "MD5_get (MD5_set example_heap 0 2147483648 0 0 0) 0 = (- 2147483648, 0, 0, 0)
   \<and> MD5_get (MD5_set example_heap 0 2147483648 0 0 0) 0
       \<noteq> (2147483648 mod 2 ^ 32, 0 mod 2 ^ 32, 0 mod 2 ^ 32, 0 mod 2 ^ 32)"
  by (simp add: MD5_get_def MD5_set_def ToInt32_eval)

text \<open>
  Claim C4, amended: for every 4-tuple of integer-valued numbers (the 32-bit-representable
  ones among them), \<open>set(A, B, C, D)\<close> stores each argument converted to a signed
  32-bit number, the number in \<open>[- 2^31, 2^31)\<close> that is congruent to the argument
  modulo \<open>2 ^ 32\<close> (the same 32 bits), in the four state fields of the instance and
  changes nothing else: the store after it is the store before it with these four fields
  of \<open>this\<close> replaced, so the scratch buffer, the byte arrays, the other fields of the
  instance and every other instance are as before. \<open>get()\<close> is a function of the store
  and returns the four fields in the order A, B, C, D. Hence \<open>get()\<close> after
  \<open>set(A, B, C, D)\<close> returns these signed numbers.
\<close>

theorem get_after_set:
  "MD5_get (MD5_set h this a b c d) this = (ToInt32 a, ToInt32 b, ToInt32 c, ToInt32 d)
   \<and> ToInt32 a mod 2 ^ 32 = a mod 2 ^ 32 \<and> ToInt32 b mod 2 ^ 32 = b mod 2 ^ 32
   \<and> ToInt32 c mod 2 ^ 32 = c mod 2 ^ 32 \<and> ToInt32 d mod 2 ^ 32 = d mod 2 ^ 32
   \<and> - (2 ^ 31) \<le> ToInt32 a \<and> ToInt32 a < 2 ^ 31 \<and> - (2 ^ 31) \<le> ToInt32 b \<and> ToInt32 b < 2 ^ 31
   \<and> - (2 ^ 31) \<le> ToInt32 c \<and> ToInt32 c < 2 ^ 31 \<and> - (2 ^ 31) \<le> ToInt32 d \<and> ToInt32 d < 2 ^ 31
   \<and> MD5_set h this a b c d
       = h\<lparr>objs := (objs h)(this := (objs h this)
            \<lparr>A := ToInt32 a, B := ToInt32 b, C := ToInt32 c, D := ToInt32 d\<rparr>)\<rparr>
   \<and> MD5_W (MD5_set h this a b c d) = MD5_W h \<and> bytes (MD5_set h this a b c d) = bytes h
   \<and> objs (MD5_set h this a b c d) = (objs h)(this := objs (MD5_set h this a b c d) this)
   \<and> buffer (objs (MD5_set h this a b c d) this) = buffer (objs h this)
   \<and> MD5.more (objs (MD5_set h this a b c d) this) = MD5.more (objs h this)"
proof -
  have full: "MD5_set h this a b c d
       = h\<lparr>objs := (objs h)(this := (objs h this)
            \<lparr>A := ToInt32 a, B := ToInt32 b, C := ToInt32 c, D := ToInt32 d\<rparr>)\<rparr>"
    by (simp add: MD5_set_def)
  have others: "objs (MD5_set h this a b c d) = (objs h)(this := objs (MD5_set h this a b c d) this)"
    by (simp add: MD5_set_def)
  note facts = get_set ToInt32_mod ToInt32_lower ToInt32_upper full others set_frame(1-4)
  show ?thesis
    by (intro conjI) (rule facts)+
qed

text \<open>
  Claim C6: \<open>roundClean()\<close> leaves the store as it was except that each of the 16 words
  of the scratch buffer is zero; and the buffer stays zero under every method other than
  \<open>process\<close>, which loads the next block: \<open>set\<close>, \<open>destroy\<close> and \<open>roundClean\<close>, on any
  instance (\<open>get\<close> returns a value and no store).
\<close>

theorem roundClean_zeroes_scratch:
  assumes "length (MD5_W h) = 16"
  shows "MD5_roundClean h this = h\<lparr>MD5_W := replicate 16 0\<rparr>
    \<and> MD5_W (MD5_set (MD5_roundClean h this) r a b c d) = replicate 16 0
    \<and> MD5_W (MD5_destroy (MD5_roundClean h this) r) = replicate 16 0
    \<and> MD5_W (MD5_roundClean (MD5_roundClean h this) r) = replicate 16 0"
  using assms
  by (simp add: MD5_roundClean_def MD5_destroy_def MD5_set_def Let_def map_replicate_const)

theorem roundClean_zeroes_scratch_witness:
  "length (MD5_W example_heap) = 16
   \<and> MD5_roundClean example_heap 0 = example_heap\<lparr>MD5_W := replicate 16 0\<rparr>
   \<and> MD5_W example_heap \<noteq> replicate 16 0"
proof -
  have len: "length (MD5_W example_heap) = 16"
    by (simp add: example_heap_def)
  have used: "MD5_W example_heap \<noteq> replicate 16 0"
    by (simp add: example_heap_def numeral_eq_Suc)
  from roundClean_zeroes_scratch [OF len, of 0] len used show ?thesis
    by simp
qed

section \<open>The first loop: loading the message schedule\<close>

lemma getUint32_ok:
  assumes "0 \<le> off" and "off + 4 \<le> int (length vb)"
  shows "getUint32 vb off = Inr (le_u32_at vb (nat off))"
  using assms by (simp add: getUint32_def)

lemma load_W_from:
  assumes off0: "0 \<le> off0" and fits: "off0 + 64 \<le> int (length vb)"
  shows "i \<le> 16 \<Longrightarrow> length W = 16 \<Longrightarrow>
    load_W vb i (off0 + 4 * int i) W
      = (None, take i W @ map (\<lambda>j. le_u32_at vb (nat off0 + 4 * j)) [i..<16])"
proof (induction "16 - i" arbitrary: i W)
  case 0
  then have "i = 16" by simp
  with "0.prems" show ?case
    by (simp add: load_W.simps [of vb 16])
next
  case (Suc n)
  then have i: "i < 16" by simp
  let ?w = "le_u32_at vb (nat off0 + 4 * i)"
  have "0 \<le> off0 + 4 * int i" and "off0 + 4 * int i + 4 \<le> int (length vb)"
    using off0 fits i by simp_all
  then have rd: "getUint32 vb (off0 + 4 * int i) = Inr (le_u32_at vb (nat (off0 + 4 * int i)))"
    by (rule getUint32_ok)
  have n: "nat (off0 + 4 * int i) = nat off0 + 4 * i"
    using off0 by (simp add: nat_add_distrib nat_mult_distrib)
  have step: "load_W vb i (off0 + 4 * int i) W = load_W vb (i + 1) (off0 + 4 * int (i + 1)) (W[i := ?w])"
    using i rd n by (simp add: load_W.simps [of vb i] algebra_simps)
  have "n = 16 - (i + 1)" using Suc.hyps(2) by simp
  moreover have "i + 1 \<le> 16" using i by simp
  moreover have "length (W[i := ?w]) = 16" using Suc.prems by simp
  ultimately have ih: "load_W vb (i + 1) (off0 + 4 * int (i + 1)) (W[i := ?w])
      = (None, take (i + 1) (W[i := ?w]) @ map (\<lambda>j. le_u32_at vb (nat off0 + 4 * j)) [i + 1..<16])"
    by (rule Suc.hyps(1))
  have t: "take (i + 1) (W[i := ?w]) = take i W @ [?w]"
    using i Suc.prems by (simp add: take_Suc_conv_app_nth)
  have u: "[i..<16] = i # [i + 1..<16]"
    using i by (simp add: upt_conv_Cons)
  show ?case
    unfolding step ih t u by simp
qed

lemma le_u32_at_block:
  assumes "n + 64 \<le> length vb" and "j < 16"
  shows "le_u32_at (take 64 (drop n vb)) (4 * j) = le_u32_at vb (n + 4 * j)"
  using assms by (simp add: le_u32_at_def add.assoc)

lemma load_W_ok:
  assumes "length W = 16" and "0 \<le> offset" and "offset + 64 \<le> int (length vb)"
  shows "load_W vb 0 offset W = (None, spec_W (block_at vb offset))"
proof -
  have fits: "nat offset + 64 \<le> length vb"
    using assms(2,3) by simp
  have "load_W vb 0 (offset + 4 * int 0) W
      = (None, take 0 W @ map (\<lambda>j. le_u32_at vb (nat offset + 4 * j)) [0..<16])"
    using assms(2,3) _ assms(1) by (rule load_W_from) simp
  moreover have "map (\<lambda>j. le_u32_at vb (nat offset + 4 * j)) [0..<16] = spec_W (block_at vb offset)"
    unfolding spec_W_def block_at_def
    by (rule map_cong [OF refl]) (simp add: le_u32_at_block [OF fits])
  ultimately show ?thesis by simp
qed

lemma load_W_fails:
  "i < 16 \<Longrightarrow> offset < 0 \<or> int (length vb) < offset + 4 * (16 - int i)
     \<Longrightarrow> fst (load_W vb i offset W) = Some RangeError"
proof (induction vb i offset W rule: load_W.induct)
  case (1 vb i offset W)
  show ?case
  proof (cases "getUint32 vb offset")
    case (Inl e)
    with "1.prems"(1) show ?thesis
      by (cases e) (simp add: load_W.simps [of vb i])
  next
    case (Inr w)
    then have ok: "0 \<le> offset \<and> offset + 4 \<le> int (length vb)"
      by (simp add: getUint32_def split: if_splits)
    with "1.prems" have i: "i + 1 < 16" by arith
    have "offset + 4 < 0 \<or> int (length vb) < offset + 4 + 4 * (16 - int (i + 1))"
      using "1.prems" ok by arith
    with "1.prems"(1) Inr i have "fst (load_W vb (i + 1) (offset + 4) (W[i := w])) = Some RangeError"
      by (rule "1.IH")
    with "1.prems"(1) Inr show ?thesis
      by (simp add: load_W.simps [of vb i])
  qed
qed

section \<open>The main loop refines the rounds of the specification\<close>

lemma hash_state_words_of: "hash_state obj = words_of (A obj, B obj, C obj, D obj)"
  by (simp add: hash_state_def words_of_def)

lemma word_of_js:
  "word_of_int (js_and x y) = (word_of_int x :: u32) AND word_of_int y"
  "word_of_int (js_or x y) = (word_of_int x :: u32) OR word_of_int y"
  "word_of_int (js_xor x y) = (word_of_int x :: u32) XOR word_of_int y"
  "word_of_int (js_not x) = NOT (word_of_int x :: u32)"
  "word_of_int (rotl x n) = word_rotl n (word_of_int x :: u32)"
  by (simp_all add: js_and_def js_or_def js_xor_def js_not_def rotl_def)

lemma word_of_Chi:
  "word_of_int (Chi a b c) = ((word_of_int a :: u32) AND word_of_int b) OR (NOT (word_of_int a) AND word_of_int c)"
  by (simp add: Chi_def word_of_js)

lemma loop_body_spec: "words_of (loop_body W i r) = spec_round W i (words_of r)"
  by (cases r)
    (simp add: loop_body_def spec_round_def words_of_def spec_F_def spec_g_def
      spec_shiftGroup_def word_of_js word_of_Chi Let_def xor.assoc)

lemma rounds_spec:
  "i \<le> 64 \<Longrightarrow> words_of (rounds W i r) = fold (spec_round W) [i..<64] (words_of r)"
proof (induction W i r rule: rounds.induct)
  case (1 W i r)
  show ?case
  proof (cases "i < 64")
    case True
    then have "words_of (rounds W (i + 1) (loop_body W i r))
        = fold (spec_round W) [i + 1..<64] (words_of (loop_body W i r))"
      using "1.IH" by simp
    with True show ?thesis
      by (simp add: rounds.simps [of W i] upt_conv_Cons loop_body_spec)
  next
    case False
    with "1.prems" have "i = 64" by simp
    then show ?thesis
      by (simp add: rounds.simps [of W 64])
  qed
qed

section \<open>process\<close>

lemma view_bytes_scratch [simp]: "view_bytes (h\<lparr>MD5_W := W\<rparr>) view = view_bytes h view"
  by (simp add: view_bytes_def)

lemma process_ok:
  assumes "length (MD5_W h) = 16" and "0 \<le> offset"
    and "offset + 64 \<le> int (length (view_bytes h view))"
  shows "MD5_process h this view offset =
     (case spec_compress (hash_state (objs h this)) (block_at (view_bytes h view) offset) of
        (a, b, c, d) \<Rightarrow>
          (None, h\<lparr>MD5_W := spec_W (block_at (view_bytes h view) offset),
                    objs := (objs h)(this := (objs h this)
                      \<lparr>A := sint a, B := sint b, C := sint c, D := sint d\<rparr>)\<rparr>))"
proof -
  let ?W = "spec_W (block_at (view_bytes h view) offset)"
  let ?obj = "objs h this"
  have ld: "load_W (view_bytes h view) 0 offset (MD5_W h) = (None, ?W)"
    using assms by (rule load_W_ok)
  obtain a b c d where r: "rounds ?W 0 (A ?obj, B ?obj, C ?obj, D ?obj) = (a, b, c, d)"
    by (cases "rounds ?W 0 (A ?obj, B ?obj, C ?obj, D ?obj)")
  have "words_of (rounds ?W 0 (A ?obj, B ?obj, C ?obj, D ?obj))
      = fold (spec_round ?W) [0..<64] (hash_state ?obj)"
    by (simp add: rounds_spec hash_state_words_of)
  then have f: "fold (spec_round ?W) [0..<64] (hash_state ?obj)
      = (word_of_int a, word_of_int b, word_of_int c, word_of_int d)"
    by (simp add: r words_of_def)
  have sc: "spec_compress (hash_state ?obj) (block_at (view_bytes h view) offset)
      = (word_of_int (a + A ?obj), word_of_int (b + B ?obj), word_of_int (c + C ?obj),
         word_of_int (d + D ?obj))"
    unfolding spec_compress_def f by (simp add: hash_state_def add.commute)
  have t: "ToInt32 (ToInt32 x) = sint (word_of_int x :: u32)" for x
    by (simp add: ToInt32_def)
  show ?thesis
    unfolding sc by (simp add: MD5_process_def ld r MD5_set_def t Let_def)
qed

lemma process_error:
  assumes "offset < 0 \<or> int (length (view_bytes h view)) < offset + 64"
  shows "\<exists>W. MD5_process h this view offset = (Some RangeError, h\<lparr>MD5_W := W\<rparr>)"
proof -
  have "fst (load_W (view_bytes h view) 0 offset (MD5_W h)) = Some RangeError"
    using assms by (intro load_W_fails) simp_all
  then obtain W where "load_W (view_bytes h view) 0 offset (MD5_W h) = (Some RangeError, W)"
    by (cases "load_W (view_bytes h view) 0 offset (MD5_W h)") simp
  then have "MD5_process h this view offset = (Some RangeError, h\<lparr>MD5_W := W\<rparr>)"
    by (simp add: MD5_process_def)
  then show ?thesis ..
qed

text \<open>
  Claim C1: for every HashState and every \<open>offset\<close> at which 64 bytes lie inside the view,
  \<open>process\<close> returns normally, and the new HashState is what the compression function
  of the specification (\<open>spec_compress\<close>: the 16 little-endian words, 64 rounds with the
  phase table, the feed-forward) gives for the old HashState and these 64 bytes. Each word
  is stored as the signed number with the same 32 bits; the scratch buffer holds the 16
  words of the block; nothing else changes.
\<close>

theorem process_computes_md5_compression:
  assumes "length (MD5_W h) = 16" and "0 \<le> offset"
    and "offset + 64 \<le> int (length (view_bytes h view))"
  shows "MD5_process h this view offset =
     (case spec_compress (hash_state (objs h this)) (block_at (view_bytes h view) offset) of
        (a, b, c, d) \<Rightarrow>
          (None, h\<lparr>MD5_W := spec_W (block_at (view_bytes h view) offset),
                    objs := (objs h)(this := (objs h this)
                      \<lparr>A := sint a, B := sint b, C := sint c, D := sint d\<rparr>)\<rparr>))"
  using assms by (rule process_ok)

lemma example_fits:
  "length (MD5_W example_heap) = 16"
  "length (view_bytes example_heap example_view) = 64"
  by (simp_all add: example_heap_def example_view_def view_bytes_def)

theorem process_computes_md5_compression_witness:
  "length (MD5_W example_heap) = 16 \<and> (0 :: int) \<le> 0
   \<and> 0 + 64 \<le> int (length (view_bytes example_heap example_view))
   \<and> MD5_process example_heap 0 example_view 0 =
     (case spec_compress (hash_state (objs example_heap 0))
             (block_at (view_bytes example_heap example_view) 0) of
        (a, b, c, d) \<Rightarrow>
          (None, example_heap\<lparr>MD5_W := spec_W (block_at (view_bytes example_heap example_view) 0),
                    objs := (objs example_heap)(0 := (objs example_heap 0)
                      \<lparr>A := sint a, B := sint b, C := sint c, D := sint d\<rparr>)\<rparr>))"
proof -
  have len: "length (MD5_W example_heap) = 16"
    by (rule example_fits)
  have nonneg: "(0 :: int) \<le> 0"
    by simp
  have fits: "0 + 64 \<le> int (length (view_bytes example_heap example_view))"
    by (simp add: example_fits)
  from process_computes_md5_compression [OF len nonneg fits, of 0] len nonneg fits
  show ?thesis by blast
qed

text \<open>
  Claim C7: the outcome of \<open>process\<close> on a 64-byte block does not depend on what the
  scratch buffer held before: with any two contents of its 16 slots the resulting stores,
  and so the new HashState, are the same.
\<close>

theorem process_ignores_old_scratch:
  assumes "length W1 = 16" and "length W2 = 16" and "0 \<le> offset"
    and "offset + 64 \<le> int (length (view_bytes h view))"
  shows "MD5_process (h\<lparr>MD5_W := W1\<rparr>) this view offset
       = MD5_process (h\<lparr>MD5_W := W2\<rparr>) this view offset"
  using assms by (simp add: process_ok)

theorem process_ignores_old_scratch_witness:
  "length (MD5_W example_heap) = 16 \<and> length (replicate 16 (0 :: u32)) = 16 \<and> (0 :: int) \<le> 0
   \<and> 0 + 64 \<le> int (length (view_bytes example_heap example_view))
   \<and> MD5_process (example_heap\<lparr>MD5_W := MD5_W example_heap\<rparr>) 0 example_view 0
       = MD5_process (example_heap\<lparr>MD5_W := replicate 16 0\<rparr>) 0 example_view 0"
proof -
  have len1: "length (MD5_W example_heap) = 16"
    by (rule example_fits)
  have len2: "length (replicate 16 (0 :: u32)) = 16"
    by simp
  have nonneg: "(0 :: int) \<le> 0"
    by simp
  have fits: "0 + 64 \<le> int (length (view_bytes example_heap example_view))"
    by (simp add: example_fits)
  from process_ignores_old_scratch [OF len1 len2 nonneg fits, of 0] len1 len2 nonneg fits
  show ?thesis by blast
qed

text \<open>
  Claim C9: when fewer than 64 bytes lie inside the view from \<open>offset\<close> on (a block
  shorter than 64 bytes is the case \<open>length < 64 \<le> offset + 64\<close>), or the offset is negative,
  \<open>process\<close> ends with the RangeError of the bounds check; the HashState, every instance
  and every byte array are as before: there is no hash result, and nothing is truncated or
  padded.
\<close>

theorem process_out_of_range_fails:
  assumes "offset < 0 \<or> int (length (view_bytes h view)) < offset + 64"
  shows "fst (MD5_process h this view offset) = Some RangeError
    \<and> objs (snd (MD5_process h this view offset)) = objs h
    \<and> bytes (snd (MD5_process h this view offset)) = bytes h
    \<and> MD5_get (snd (MD5_process h this view offset)) this = MD5_get h this"
proof -
  obtain W where "MD5_process h this view offset = (Some RangeError, h\<lparr>MD5_W := W\<rparr>)"
    using process_error [OF assms] by blast
  then show ?thesis
    by (simp add: MD5_get_def)
qed

theorem process_out_of_range_fails_witness:
  "((4 :: int) < 0 \<or> int (length (view_bytes example_heap example_view)) < 4 + 64)
   \<and> fst (MD5_process example_heap 0 example_view 4) = Some RangeError
   \<and> MD5_get (snd (MD5_process example_heap 0 example_view 4)) 0 = MD5_get example_heap 0"
proof -
  have past: "(4 :: int) < 0 \<or> int (length (view_bytes example_heap example_view)) < 4 + 64"
    by (simp add: example_fits)
  from process_out_of_range_fails [OF past, of 0] past show ?thesis
    by blast
qed

text \<open>The shape of a store that differs from \<open>h\<close> in the scratch buffer and in the four state fields of \<open>this\<close> only.\<close>

lemma frame_intro:
  assumes "h' = h\<lparr>MD5_W := W, objs := (objs h)(this := (objs h this)\<lparr>A := a, B := b, C := c, D := d\<rparr>)\<rparr>"
  shows "bytes h' = bytes h
   \<and> (\<exists>W a b c d. h' = h\<lparr>MD5_W := W, objs := (objs h)(this := (objs h this)\<lparr>A := a, B := b, C := c, D := d\<rparr>)\<rparr>)"
proof
  show "bytes h' = bytes h"
    by (simp add: assms)
  show "\<exists>W a b c d. h' = h\<lparr>MD5_W := W, objs := (objs h)(this := (objs h this)\<lparr>A := a, B := b, C := c, D := d\<rparr>)\<rparr>"
    apply (rule exI)+
    apply (rule assms)
    done
qed

text \<open>
  Claim C10: whether it returns or throws, \<open>process\<close> leaves every byte array as it was,
  the input among them, and the store after it is the store before it with new contents
  of the scratch buffer \<open>MD5_W\<close> and new values of the four fields A, B, C, D of
  \<open>this\<close>: every other field of the instance and every other instance are unchanged.
\<close>

theorem process_frame:
  "bytes (snd (MD5_process h this view offset)) = bytes h
   \<and> (\<exists>W a b c d. snd (MD5_process h this view offset)
         = h\<lparr>MD5_W := W, objs := (objs h)(this := (objs h this)\<lparr>A := a, B := b, C := c, D := d\<rparr>)\<rparr>)"
proof (cases "load_W (view_bytes h view) 0 offset (MD5_W h)")
  case (Pair e W)
  show ?thesis
  proof (cases e)
    case None
    obtain a b c d where r: "rounds W 0 (A (objs h this), B (objs h this), C (objs h this), D (objs h this)) = (a, b, c, d)"
      by (cases "rounds W 0 (A (objs h this), B (objs h this), C (objs h this), D (objs h this))")
    have "snd (MD5_process h this view offset)
        = h\<lparr>MD5_W := W, objs := (objs h)(this := (objs h this)
             \<lparr>A := ToInt32 (ToInt32 (a + A (objs h this))), B := ToInt32 (ToInt32 (b + B (objs h this))),
              C := ToInt32 (ToInt32 (c + C (objs h this))), D := ToInt32 (ToInt32 (d + D (objs h this)))\<rparr>)\<rparr>"
      using Pair None r by (simp add: MD5_process_def MD5_set_def Let_def)
    then show ?thesis
      by (rule frame_intro)
  next
    case (Some err)
    have "snd (MD5_process h this view offset)
        = h\<lparr>MD5_W := W, objs := (objs h)(this := (objs h this)
             \<lparr>A := A (objs h this), B := B (objs h this), C := C (objs h this), D := D (objs h this)\<rparr>)\<rparr>"
      using Pair Some by (simp add: MD5_process_def)
    then show ?thesis
      by (rule frame_intro)
  qed
qed

section \<open>One scratch buffer for the module\<close>

lemma example_block_word:
  "spec_W (block_at (view_bytes example_heap example_view) 0) ! 0 = 16843009"
  by (simp add: spec_W_def block_at_def view_bytes_def example_heap_def example_view_def
      upt_conv_Cons le_u32_at_def le_u32_def)

text \<open>
  Claim C8, as stated, at an input: the store holds two instances, at the addresses 0 and
  3. A \<open>process\<close> call on instance 0 changes the scratch buffer that instance 3 works
  on: it is the same buffer.
\<close>

theorem scratch_shared_counterexample:
  "(0 :: addr) \<noteq> 3
   \<and> scratch_of (snd (MD5_process example_heap 0 example_view 0)) 3 \<noteq> scratch_of example_heap 3"
proof -
  have len: "length (MD5_W example_heap) = 16"
    by (rule example_fits)
  have fits: "0 + 64 \<le> int (length (view_bytes example_heap example_view))"
    by (simp add: example_fits)
  have "MD5_W (snd (MD5_process example_heap 0 example_view 0))
      = spec_W (block_at (view_bytes example_heap example_view) 0)"
    using process_ok [OF len _ fits, of 0] by (simp split: prod.splits)
  then have "MD5_W (snd (MD5_process example_heap 0 example_view 0)) ! 0 = 16843009"
    by (simp only: example_block_word)
  moreover have "MD5_W example_heap ! 0 = 1"
    by (simp add: example_heap_def)
  ultimately show ?thesis
    by (auto simp add: scratch_of_def)
qed

text \<open>
  Claim C8, amended: the scratch buffer is one module-level buffer of 16 words, shared by
  all instances and reused across all their \<open>process\<close> calls: after a \<open>process\<close> call on
  any instance the buffer every instance works on holds the 16 words of that block, and
  after \<open>roundClean\<close> on any instance it is zero for all. What is owned by an instance is
  its state: \<open>process\<close> on one instance leaves every other instance as it was.
\<close>

theorem scratch_is_module_level:
  assumes "length (MD5_W h) = 16" and "0 \<le> offset"
    and "offset + 64 \<le> int (length (view_bytes h view))"
  shows "scratch_of (snd (MD5_process h this view offset)) other
       = spec_W (block_at (view_bytes h view) offset)
    \<and> scratch_of (MD5_roundClean h this) other = replicate 16 0
    \<and> (other \<noteq> this \<longrightarrow> objs (snd (MD5_process h this view offset)) other = objs h other)"
  using assms
  by (simp add: process_ok scratch_of_def MD5_roundClean_def map_replicate_const split: prod.splits)

theorem scratch_is_module_level_witness:
  "length (MD5_W example_heap) = 16 \<and> (0 :: int) \<le> 0
   \<and> 0 + 64 \<le> int (length (view_bytes example_heap example_view)) \<and> (3 :: addr) \<noteq> 0
   \<and> scratch_of (snd (MD5_process example_heap 0 example_view 0)) 3
       = spec_W (block_at (view_bytes example_heap example_view) 0)
   \<and> objs (snd (MD5_process example_heap 0 example_view 0)) 3 = objs example_heap 3"
proof -
  have len: "length (MD5_W example_heap) = 16"
    by (rule example_fits)
  have nonneg: "(0 :: int) \<le> 0"
    by simp
  have fits: "0 + 64 \<le> int (length (view_bytes example_heap example_view))"
    by (simp add: example_fits)
  have other: "(3 :: addr) \<noteq> 0"
    by simp
  from scratch_is_module_level [OF len nonneg fits, of 0 3] len nonneg fits other
  show ?thesis by blast
qed

section \<open>destroy\<close>

lemma destroy_scratch: "MD5_W (MD5_destroy h this) = MD5_W h"
  by (simp add: MD5_destroy_def MD5_set_def Let_def)

text \<open>
  Claim C5, as stated, at an input: instance 0 processes a block and is then destroyed.
  The claim promises that the retained internal storage reads as zero; the scratch buffer
  still holds the words of the block, \<open>0x01010101\<close> in the first slot.
\<close>

theorem destroy_keeps_scratch_counterexample:
  "scratch_of (MD5_destroy (snd (MD5_process example_heap 0 example_view 0)) 0) 0 ! 0 = 16843009
   \<and> scratch_of (MD5_destroy (snd (MD5_process example_heap 0 example_view 0)) 0) 0
       \<noteq> replicate 16 0"
proof -
  have len: "length (MD5_W example_heap) = 16"
    by (rule example_fits)
  have fits: "0 + 64 \<le> int (length (view_bytes example_heap example_view))"
    by (simp add: example_fits)
  have "MD5_W (snd (MD5_process example_heap 0 example_view 0))
      = spec_W (block_at (view_bytes example_heap example_view) 0)"
    using process_ok [OF len _ fits, of 0] by (simp split: prod.splits)
  then have w: "scratch_of (MD5_destroy (snd (MD5_process example_heap 0 example_view 0)) 0) 0 ! 0
      = 16843009"
    by (simp only: scratch_of_def destroy_scratch example_block_word)
  have z: "replicate 16 (0 :: u32) ! 0 = 0"
    by simp
  show ?thesis
  proof
    show "scratch_of (MD5_destroy (snd (MD5_process example_heap 0 example_view 0)) 0) 0 ! 0
        = 16843009"
      by (rule w)
    show "scratch_of (MD5_destroy (snd (MD5_process example_heap 0 example_view 0)) 0) 0
        \<noteq> replicate 16 0"
    proof
      assume "scratch_of (MD5_destroy (snd (MD5_process example_heap 0 example_view 0)) 0) 0
          = replicate 16 0"
      with w z have "(16843009 :: u32) = 0"
        by (simp only:)
      then show False
        by simp
    qed
  qed
qed

text \<open>
  Claim C5, amended: after \<open>destroy()\<close> the four state words of the instance are zero
  and the byte array its \<open>buffer\<close> field refers to, still the same array and of the same
  length, holds only zero bytes; nothing else changes. In particular \<open>destroy()\<close> leaves
  the module-level scratch buffer as it is: that buffer is zero only where \<open>roundClean()\<close>
  ran after the last block.
\<close>

theorem destroy_zeroizes:
  "MD5_destroy h this
     = h\<lparr>objs := (objs h)(this := (objs h this)\<lparr>A := 0, B := 0, C := 0, D := 0\<rparr>),
         bytes := (bytes h)(buffer (objs h this)
                    := replicate (length (bytes h (buffer (objs h this)))) 0)\<rparr>
   \<and> A (objs (MD5_destroy h this) this) = 0 \<and> B (objs (MD5_destroy h this) this) = 0
   \<and> C (objs (MD5_destroy h this) this) = 0 \<and> D (objs (MD5_destroy h this) this) = 0
   \<and> buffer (objs (MD5_destroy h this) this) = buffer (objs h this)
   \<and> bytes (MD5_destroy h this) (buffer (objs h this))
       = replicate (length (bytes h (buffer (objs h this)))) 0
   \<and> MD5_W (MD5_destroy h this) = MD5_W h
   \<and> scratch_of (MD5_destroy h this) this = scratch_of h this"
  by (simp add: MD5_destroy_def MD5_set_def Let_def ToInt32_eval map_replicate_const scratch_of_def)

section \<open>Evaluating the main loop\<close>

text \<open>
  Rotation by shifts, and the loop body and the loop in a form that the simplifier
  evaluates on numerals.
\<close>

lemma word_rotl_shifts:
  fixes w :: u32
  assumes "n < 32"
  shows "word_rotl n w = push_bit n w OR drop_bit (32 - n) w"
proof (rule bit_word_eqI)
  fix k assume "k < LENGTH(32)"
  then have k: "k < 32" by simp
  have nm: "n mod 32 = n" using assms by simp
  have len: "LENGTH(32) = 32" by simp
  show "bit (word_rotl n w) k = bit (push_bit n w OR drop_bit (32 - n) w) k"
  proof (cases "n \<le> k")
    case True
    have e: "k + (32 - n) = (k - n) + 32" using True assms by arith
    have l: "k - n < 32" using k by arith
    have idx: "(k + (32 - n)) mod 32 = k - n"
      unfolding e using l by (simp only: mod_add_self2 mod_less)
    have hi: "\<not> bit w (32 - n + k)"
    proof
      assume "bit w (32 - n + k)"
      then have "32 - n + k < LENGTH(32)" by (rule bit_imp_le_length)
      with True assms show False by simp
    qed
    have "bit (word_rotl n w) k = bit w (k - n)"
      using k by (simp only: bit_word_rotl_iff len nm idx) simp
    moreover have "bit (push_bit n w OR drop_bit (32 - n) w) k = bit w (k - n)"
      using True k hi by (simp add: bit_or_iff bit_push_bit_iff bit_drop_bit_eq)
    ultimately show ?thesis by simp
  next
    case False
    then have l: "k + (32 - n) < 32" using assms by arith
    have idx: "(k + (32 - n)) mod 32 = k + (32 - n)"
      using l by (rule mod_less)
    have "bit (word_rotl n w) k = bit w (k + (32 - n))"
      using k by (simp only: bit_word_rotl_iff len nm idx) simp
    moreover have "bit (push_bit n w OR drop_bit (32 - n) w) k = bit w (k + (32 - n))"
      using False k by (simp add: bit_or_iff bit_push_bit_iff bit_drop_bit_eq add.commute)
    ultimately show ?thesis by simp
  qed
qed

lemma rotl_eval:
  assumes "n < 32"
  shows "rotl x n = ToInt32 (x mod 4294967296 * 2 ^ n + x mod 4294967296 div 2 ^ (32 - n))"
proof -
  let ?w = "word_of_int x :: u32"
  have u: "uint ?w = x mod 4294967296"
    by (simp add: uint_word_of_int)
  have d: "uint (drop_bit (32 - n) ?w) = x mod 4294967296 div 2 ^ (32 - n)"
    apply (subst unsigned_drop_bit_eq)
    apply (simp add: drop_bit_eq_div take_bit_eq_mod uint_word_of_int)
    done
  have disj: "push_bit n ?w AND drop_bit (32 - n) ?w = 0"
  proof (rule bit_word_eqI)
    fix k assume "k < LENGTH(32)"
    show "bit (push_bit n ?w AND drop_bit (32 - n) ?w) k = bit (0 :: u32) k"
    proof (cases "n \<le> k")
      case True
      have "\<not> bit ?w (32 - n + k)"
      proof
        assume "bit ?w (32 - n + k)"
        then have "32 - n + k < LENGTH(32)" by (rule bit_imp_le_length)
        with True assms show False by simp
      qed
      then show ?thesis by (simp add: bit_and_iff bit_drop_bit_eq)
    next
      case False
      then show ?thesis by (simp add: bit_and_iff bit_push_bit_iff)
    qed
  qed
  have "word_rotl n ?w = push_bit n ?w OR drop_bit (32 - n) ?w"
    using assms by (rule word_rotl_shifts)
  also have "\<dots> = push_bit n ?w + drop_bit (32 - n) ?w"
    using disj by (rule disjunctive_add_eq_or [symmetric])
  also have "\<dots> = word_of_int (x mod 4294967296 * 2 ^ n + x mod 4294967296 div 2 ^ (32 - n))"
  proof -
    have m: "word_of_int (x mod 4294967296) = ?w"
      using u by (metis word_of_int_uint)
    have p: "push_bit n ?w = word_of_int (x mod 4294967296 * 2 ^ n)"
      by (simp only: push_bit_eq_mult of_int_mult of_int_power m) simp
    have q: "drop_bit (32 - n) ?w = word_of_int (x mod 4294967296 div 2 ^ (32 - n))"
      using d by (metis word_of_int_uint)
    show ?thesis
      by (simp only: p q of_int_add)
  qed
  finally show ?thesis
    by (simp add: rotl_def ToInt32_def)
qed

lemma loop_body_eval:
  "loop_body W i (a, b, c, d) =
     (d,
      b + rotl ((if i < 16 then Chi b c d else if i < 32 then Chi d b c
                 else if i < 48 then js_xor (js_xor b c) d else js_xor c (js_or b (js_not d)))
                + a + uint (MD5_K ! i)
                + uint (W ! (if i < 16 then i else if i < 32 then (5 * i + 1) mod 16
                             else if i < 48 then (3 * i + 5) mod 16 else (7 * i) mod 16)))
            ((if i < 16 then [7, 12, 17, 22] else if i < 32 then [5, 9, 14, 20]
              else if i < 48 then [4, 11, 16, 23] else [6, 10, 15, 21]) ! (i mod 4)),
      b, c)"
  by (simp add: loop_body_def)

lemma MD5_K_nth:
  "uint (MD5_K ! 0) = 3614090360"
  "uint (MD5_K ! Suc 0) = 3905402710"
  "uint (MD5_K ! 2) = 606105819"
  "uint (MD5_K ! 3) = 3250441966"
  "uint (MD5_K ! 4) = 4118548399"
  "uint (MD5_K ! 5) = 1200080426"
  "uint (MD5_K ! 6) = 2821735955"
  "uint (MD5_K ! 7) = 4249261313"
  "uint (MD5_K ! 8) = 1770035416"
  "uint (MD5_K ! 9) = 2336552879"
  "uint (MD5_K ! 10) = 4294925233"
  "uint (MD5_K ! 11) = 2304563134"
  "uint (MD5_K ! 12) = 1804603682"
  "uint (MD5_K ! 13) = 4254626195"
  "uint (MD5_K ! 14) = 2792965006"
  "uint (MD5_K ! 15) = 1236535329"
  "uint (MD5_K ! 16) = 4129170786"
  "uint (MD5_K ! 17) = 3225465664"
  "uint (MD5_K ! 18) = 643717713"
  "uint (MD5_K ! 19) = 3921069994"
  "uint (MD5_K ! 20) = 3593408605"
  "uint (MD5_K ! 21) = 38016083"
  "uint (MD5_K ! 22) = 3634488961"
  "uint (MD5_K ! 23) = 3889429448"
  "uint (MD5_K ! 24) = 568446438"
  "uint (MD5_K ! 25) = 3275163606"
  "uint (MD5_K ! 26) = 4107603335"
  "uint (MD5_K ! 27) = 1163531501"
  "uint (MD5_K ! 28) = 2850285829"
  "uint (MD5_K ! 29) = 4243563512"
  "uint (MD5_K ! 30) = 1735328473"
  "uint (MD5_K ! 31) = 2368359562"
  "uint (MD5_K ! 32) = 4294588738"
  "uint (MD5_K ! 33) = 2272392833"
  "uint (MD5_K ! 34) = 1839030562"
  "uint (MD5_K ! 35) = 4259657740"
  "uint (MD5_K ! 36) = 2763975236"
  "uint (MD5_K ! 37) = 1272893353"
  "uint (MD5_K ! 38) = 4139469664"
  "uint (MD5_K ! 39) = 3200236656"
  "uint (MD5_K ! 40) = 681279174"
  "uint (MD5_K ! 41) = 3936430074"
  "uint (MD5_K ! 42) = 3572445317"
  "uint (MD5_K ! 43) = 76029189"
  "uint (MD5_K ! 44) = 3654602809"
  "uint (MD5_K ! 45) = 3873151461"
  "uint (MD5_K ! 46) = 530742520"
  "uint (MD5_K ! 47) = 3299628645"
  "uint (MD5_K ! 48) = 4096336452"
  "uint (MD5_K ! 49) = 1126891415"
  "uint (MD5_K ! 50) = 2878612391"
  "uint (MD5_K ! 51) = 4237533241"
  "uint (MD5_K ! 52) = 1700485571"
  "uint (MD5_K ! 53) = 2399980690"
  "uint (MD5_K ! 54) = 4293915773"
  "uint (MD5_K ! 55) = 2240044497"
  "uint (MD5_K ! 56) = 1873313359"
  "uint (MD5_K ! 57) = 4264355552"
  "uint (MD5_K ! 58) = 2734768916"
  "uint (MD5_K ! 59) = 1309151649"
  "uint (MD5_K ! 60) = 4149444226"
  "uint (MD5_K ! 61) = 3174756917"
  "uint (MD5_K ! 62) = 718787259"
  "uint (MD5_K ! 63) = 3951481745"
  by (simp_all add: MD5_K_def)

lemma rounds_unfold:
  "rounds W 0 r = rounds W (Suc 0) (loop_body W 0 r)"
  "rounds W (Suc 0) r = rounds W 2 (loop_body W (Suc 0) r)"
  "rounds W (numeral k) r =
     (if numeral k < (64 :: nat) then rounds W (numeral k + 1) (loop_body W (numeral k) r) else r)"
  by (simp_all add: rounds.simps [of W 0] rounds.simps [of W "Suc 0"] rounds.simps [of W "numeral k"]
      numeral_2_eq_2)

lemmas rounds_eval = rounds_unfold loop_body_eval Chi_def js_and_def js_or_def js_xor_def js_not_def
  rotl_eval ToInt32_eval MD5_K_nth

lemma rounds_empty:
  "rounds [128, 0, 0, 0, 0, 0, 0, 0, 0, 0, 0, 0, 0, 0, 0, 0] 0
     (1732584193, - 271733879, - 1732584194, 271733878)
   = (1917254355, 350508294, - 11623445, 1846584438)"
  by (simp add: rounds_eval)

section \<open>The numbers of the main loop are exact\<close>

text \<open>
  The main loop adds without reducing. From a state of signed 32-bit numbers, each round
  adds one signed 32-bit number to a local, so before round \<open>i\<close> the locals lie within
  \<open>(i + 1) * 2 ^ 31\<close>; the sum passed to \<open>rotl\<close> adds a signed and two unsigned 32-bit
  numbers to a local. All of these are below \<open>2 ^ 53\<close>.
\<close>

lemma sint32_abs: "\<bar>sint (w :: u32)\<bar> \<le> 2 ^ 31"
  using sint_ge [of w] sint_lt [of w] by simp

lemma uint32_bound: "0 \<le> uint (w :: u32) \<and> uint w < 2 ^ 32"
  using uint_lt2p [of w] by simp

lemma loop_body_within:
  assumes "regs_within M r"
  shows "regs_within (M + 2 ^ 31) (loop_body W i r)"
proof (cases r)
  case (fields a b c d)
  have "\<bar>b + rotl x n\<bar> \<le> M + 2 ^ 31" if "\<bar>b\<bar> \<le> M" for x n
    using that sint32_abs [of "word_rotl n (word_of_int x)"] by (simp add: rotl_def)
  with assms fields show ?thesis
    by (simp add: regs_within_def loop_body_eval)
qed

lemma loop_sum_within:
  fixes W :: "u32 list"
  assumes "regs_within M (a, b, c, d)"
  shows "\<bar>(if i < 16 then Chi b c d else if i < 32 then Chi d b c
           else if i < 48 then js_xor (js_xor b c) d else js_xor c (js_or b (js_not d)))
          + a + uint (MD5_K ! i) + uint (W ! g)\<bar> \<le> M + 2 ^ 31 + 2 * 2 ^ 32"
proof -
  have F: "\<bar>if i < 16 then Chi b c d else if i < 32 then Chi d b c
           else if i < 48 then js_xor (js_xor b c) d else js_xor c (js_or b (js_not d))\<bar> \<le> 2 ^ 31"
  proof -
    have c: "\<bar>Chi x y z\<bar> \<le> 2 ^ 31" for x y z
      unfolding Chi_def js_or_def by (rule sint32_abs)
    have x: "\<bar>js_xor y z\<bar> \<le> 2 ^ 31" for y z
      unfolding js_xor_def by (rule sint32_abs)
    show ?thesis
      using c x by (simp only: split: if_split) simp
  qed
  have a: "\<bar>a\<bar> \<le> M"
    using assms by (simp add: regs_within_def)
  from F a uint32_bound [of "MD5_K ! i"] uint32_bound [of "W ! g"] show ?thesis
    by linarith
qed

lemma rounds_fold: "i \<le> 64 \<Longrightarrow> rounds W i r = fold (loop_body W) [i..<64] r"
proof (induction W i r rule: rounds.induct)
  case (1 W i r)
  show ?case
  proof (cases "i < 64")
    case True
    with "1.IH" show ?thesis
      by (simp add: rounds.simps [of W i] upt_conv_Cons)
  next
    case False
    with "1.prems" have "i = 64"
      by simp
    then show ?thesis
      by (simp add: rounds.simps [of W 64])
  qed
qed

lemma locals_within:
  assumes "regs_within (2 ^ 31) r"
  shows "regs_within (int (i + 1) * 2 ^ 31) (fold (loop_body W) [0..<i] r)"
proof (induction i)
  case 0
  from assms show ?case by simp
next
  case (Suc i)
  have "regs_within (int (i + 1) * 2 ^ 31 + 2 ^ 31) (loop_body W i (fold (loop_body W) [0..<i] r))"
    using Suc by (rule loop_body_within)
  then show ?case
    by (simp add: algebra_simps)
qed

lemma rounds_exact:
  assumes r: "regs_within (2 ^ 31) r" and i: "i < 64"
    and st: "fold (loop_body W) [0..<i] r = (a, b, c, d)"
  shows "\<bar>(if i < 16 then Chi b c d else if i < 32 then Chi d b c
           else if i < 48 then js_xor (js_xor b c) d else js_xor c (js_or b (js_not d)))
          + a + uint (MD5_K ! i) + uint (W ! g)\<bar> < 2 ^ 53"
    and "regs_within (2 ^ 38) (loop_body W i (a, b, c, d))"
    and "regs_within (2 ^ 38) (rounds W 0 r)"
proof -
  have le: "int (i + 1) * 2 ^ 31 \<le> 64 * 2 ^ 31"
    using i by simp
  have w: "regs_within (int (i + 1) * 2 ^ 31) (a, b, c, d)"
    using locals_within [OF r, of i W] st by simp
  have "\<bar>(if i < 16 then Chi b c d else if i < 32 then Chi d b c
           else if i < 48 then js_xor (js_xor b c) d else js_xor c (js_or b (js_not d)))
          + a + uint (MD5_K ! i) + uint (W ! g)\<bar> \<le> int (i + 1) * 2 ^ 31 + 2 ^ 31 + 2 * 2 ^ 32"
    using w by (rule loop_sum_within)
  with le show "\<bar>(if i < 16 then Chi b c d else if i < 32 then Chi d b c
           else if i < 48 then js_xor (js_xor b c) d else js_xor c (js_or b (js_not d)))
          + a + uint (MD5_K ! i) + uint (W ! g)\<bar> < 2 ^ 53"
    by simp
  have "regs_within (int (i + 1) * 2 ^ 31 + 2 ^ 31) (loop_body W i (a, b, c, d))"
    using w by (rule loop_body_within)
  with le show "regs_within (2 ^ 38) (loop_body W i (a, b, c, d))"
    by (cases "loop_body W i (a, b, c, d)") (simp add: regs_within_def)
  have "regs_within (int (64 + 1) * 2 ^ 31) (fold (loop_body W) [0..<64] r)"
    using r by (rule locals_within)
  then show "regs_within (2 ^ 38) (rounds W 0 r)"
    by (cases "fold (loop_body W) [0..<64] r") (simp add: rounds_fold regs_within_def)
qed

section \<open>Known-answer vectors\<close>

lemma digest_heap_simps:
  "MD5_W (digest_heap data) = replicate 16 0"
  "view_bytes (digest_heap data) \<lparr>dv_buffer = 2, byteOffset = 0, byteLength = length data\<rparr> = data"
  "MD5_get (digest_heap data) 0 = (1732584193, - 271733879, - 1732584194, 271733878)"
  by (simp_all add: digest_heap_def MD5_new_def fresh_heap_def view_bytes_def MD5_get_def IV_def
      ToInt32_eval)

lemma md5_one_block:
  assumes len: "length (pad msg) = 64"
    and r: "rounds (spec_W (pad msg)) 0 (1732584193, - 271733879, - 1732584194, 271733878) = (a, b, c, d)"
  shows "md5 msg = Inr (le_bytes 4 (ToInt32 (a + 1732584193)) @ le_bytes 4 (ToInt32 (b + - 271733879))
                     @ le_bytes 4 (ToInt32 (c + - 1732584194)) @ le_bytes 4 (ToInt32 (d + 271733878)))"
proof -
  let ?view = "\<lparr>dv_buffer = 2, byteOffset = 0, byteLength = length (pad msg)\<rparr>"
  let ?h = "digest_heap (pad msg)"
  have blk: "block_at (pad msg) 0 = pad msg"
    using len by (simp add: block_at_def)
  have ld: "load_W (pad msg) 0 0 (replicate 16 0) = (None, spec_W (pad msg))"
    using load_W_ok [of "replicate 16 0" 0 "pad msg"] len blk by simp
  have st: "A (objs ?h 0) = 1732584193" "B (objs ?h 0) = - 271733879"
    "C (objs ?h 0) = - 1732584194" "D (objs ?h 0) = 271733878"
    using digest_heap_simps(3) [of "pad msg"] by (simp_all add: MD5_get_def Let_def)
  have p: "MD5_process ?h 0 ?view 0
      = (None, MD5_set (?h\<lparr>MD5_W := spec_W (pad msg)\<rparr>) 0
           (ToInt32 (a + 1732584193)) (ToInt32 (b + - 271733879))
           (ToInt32 (c + - 1732584194)) (ToInt32 (d + 271733878)))"
    by (simp add: MD5_process_def digest_heap_simps ld st r Let_def)
  have n: "length (pad msg) div 64 = Suc 0"
    using len by simp
  show ?thesis
    by (simp add: md5_def Let_def n p MD5_roundClean_def MD5_get_def MD5_set_def ToInt32_idem)
qed

lemma pad_empty:
  "pad [] = [128, 0, 0, 0, 0, 0, 0, 0, 0, 0, 0, 0, 0, 0, 0, 0, 0, 0, 0, 0, 0, 0, 0, 0,
  0, 0, 0, 0, 0, 0, 0, 0, 0, 0, 0, 0, 0, 0, 0, 0, 0, 0, 0, 0, 0, 0, 0, 0, 0,
  0, 0, 0, 0, 0, 0, 0, 0, 0, 0, 0, 0, 0, 0, 0]"
  by code_simp

lemma pad_abc:
  "pad (ascii_bytes ''abc'') = [97, 98, 99, 128, 0, 0, 0, 0, 0, 0, 0, 0, 0, 0, 0, 0, 0, 0, 0, 0, 0, 0, 0,
  0, 0, 0, 0, 0, 0, 0, 0, 0, 0, 0, 0, 0, 0, 0, 0, 0, 0, 0, 0, 0, 0, 0, 0, 0,
  0, 0, 0, 0, 0, 0, 0, 0, 24, 0, 0, 0, 0, 0, 0, 0]"
  by code_simp

lemma pad_fox:
  "pad (ascii_bytes ''The quick brown fox jumps over the lazy dog'') =
  [84, 104, 101, 32, 113, 117, 105, 99, 107, 32, 98, 114, 111, 119, 110, 32,
  102, 111, 120, 32, 106, 117, 109, 112, 115, 32, 111, 118, 101, 114, 32,
  116, 104, 101, 32, 108, 97, 122, 121, 32, 100, 111, 103, 128, 0, 0, 0, 0,
  0, 0, 0, 0, 0, 0, 0, 0, 88, 1, 0, 0, 0, 0, 0, 0]"
  by code_simp

lemma spec_W_empty:
  "spec_W [128, 0, 0, 0, 0, 0, 0, 0, 0, 0, 0, 0, 0, 0, 0, 0, 0, 0, 0, 0, 0, 0, 0, 0,
  0, 0, 0, 0, 0, 0, 0, 0, 0, 0, 0, 0, 0, 0, 0, 0, 0, 0, 0, 0, 0, 0, 0, 0, 0,
  0, 0, 0, 0, 0, 0, 0, 0, 0, 0, 0, 0, 0, 0, 0] = [128, 0, 0, 0, 0, 0, 0, 0, 0, 0, 0, 0, 0, 0, 0, 0]"
  by (simp add: spec_W_def le_u32_at_def le_u32_def upt_conv_Cons)

lemma spec_W_abc:
  "spec_W [97, 98, 99, 128, 0, 0, 0, 0, 0, 0, 0, 0, 0, 0, 0, 0, 0, 0, 0, 0, 0, 0, 0,
  0, 0, 0, 0, 0, 0, 0, 0, 0, 0, 0, 0, 0, 0, 0, 0, 0, 0, 0, 0, 0, 0, 0, 0, 0,
  0, 0, 0, 0, 0, 0, 0, 0, 24, 0, 0, 0, 0, 0, 0, 0]
   = [2153996897, 0, 0, 0, 0, 0, 0, 0, 0, 0, 0, 0, 0, 0, 24, 0]"
  by (simp add: spec_W_def le_u32_at_def le_u32_def upt_conv_Cons)

lemma spec_W_fox:
  "spec_W [84, 104, 101, 32, 113, 117, 105, 99, 107, 32, 98, 114, 111, 119, 110, 32,
  102, 111, 120, 32, 106, 117, 109, 112, 115, 32, 111, 118, 101, 114, 32,
  116, 104, 101, 32, 108, 97, 122, 121, 32, 100, 111, 103, 128, 0, 0, 0, 0,
  0, 0, 0, 0, 0, 0, 0, 0, 88, 1, 0, 0, 0, 0, 0, 0]
   = [543516756, 1667855729, 1919033451, 544110447, 544763750, 1886221674,
  1986994291, 1948283493, 1814062440, 544832097, 2154262372, 0, 0, 0, 344, 0]"
  by (simp add: spec_W_def le_u32_at_def le_u32_def upt_conv_Cons)

lemma md5_empty:
  "md5 [] = Inr [0xd4, 0x1d, 0x8c, 0xd9, 0x8f, 0x00, 0xb2, 0x04, 0xe9, 0x80, 0x09, 0x98, 0xec, 0xf8, 0x42, 0x7e]"
proof -
  have len: "length (pad []) = 64"
    by (simp add: pad_empty)
  have r: "rounds (spec_W (pad [])) 0 (1732584193, - 271733879, - 1732584194, 271733878)
      = (1917254355, 350508294, - 11623445, 1846584438)"
    by (simp only: pad_empty spec_W_empty rounds_empty)
  show ?thesis
    unfolding md5_one_block [OF len r]
    by (simp add: le_bytes_def ToInt32_eval upt_conv_Cons)
qed

lemma rounds_abc:
  "rounds [2153996897, 0, 0, 0, 0, 0, 0, 0, 0, 0, 0, 0, 0, 0, 24, 0] 0
     (1732584193, - 271733879, - 1732584194, 271733878)
   = (5117763215, 3229755059, 3833903576, 5944216754)"
  by (simp add: rounds_eval)

lemma md5_abc:
  "md5 (ascii_bytes ''abc'')
   = Inr [0x90, 0x01, 0x50, 0x98, 0x3c, 0xd2, 0x4f, 0xb0, 0xd6, 0x96, 0x3f, 0x7d, 0x28, 0xe1, 0x7f, 0x72]"
proof -
  have len: "length (pad (ascii_bytes ''abc'')) = 64"
    by (simp add: pad_abc)
  have r: "rounds (spec_W (pad (ascii_bytes ''abc''))) 0 (1732584193, - 271733879, - 1732584194, 271733878)
      = (5117763215, 3229755059, 3833903576, 5944216754)"
    by (simp only: pad_abc spec_W_abc rounds_abc)
  show ?thesis
    unfolding md5_one_block [OF len r]
    by (simp add: le_bytes_def ToInt32_eval upt_conv_Cons)
qed

lemma rounds_fox:
  "rounds [543516756, 1667855729, 1919033451, 544110447, 544763750, 1886221674,
      1986994291, 1948283493, 1814062440, 544832097, 2154262372, 0, 0, 0, 344, 0] 0
     (1732584193, - 271733879, - 1732584194, 271733878)
   = (5204602269, 2464710574, 2623732589, 3320270796)"
  by (simp add: rounds_eval)

lemma md5_fox:
  "md5 (ascii_bytes ''The quick brown fox jumps over the lazy dog'')
   = Inr [0x9e, 0x10, 0x7d, 0x9d, 0x37, 0x2b, 0xb6, 0x82, 0x6b, 0xd8, 0x1d, 0x35, 0x42, 0xa4, 0x19, 0xd6]"
proof -
  have len: "length (pad (ascii_bytes ''The quick brown fox jumps over the lazy dog'')) = 64"
    by (simp add: pad_fox)
  have r: "rounds (spec_W (pad (ascii_bytes ''The quick brown fox jumps over the lazy dog''))) 0
        (1732584193, - 271733879, - 1732584194, 271733878)
      = (5204602269, 2464710574, 2623732589, 3320270796)"
    by (simp only: pad_fox spec_W_fox rounds_fox)
  show ?thesis
    unfolding md5_one_block [OF len r]
    by (simp add: le_bytes_def ToInt32_eval upt_conv_Cons)
qed

text \<open>
  Claim C2: with the engine as the spec describes it (padding, one \<open>process\<close> call per
  block, little-endian serialization of A, B, C, D), the digests of the empty string, of
  \<open>abc\<close> and of \<open>The quick brown fox jumps over the lazy dog\<close> are the 16 bytes
  \<open>d41d8cd98f00b204e9800998ecf8427e\<close>, \<open>900150983cd24fb0d6963f7d28e17f72\<close> and
  \<open>9e107d9d372bb6826bd81d3542a419d6\<close>.
\<close>

theorem md5_known_answers:
  "md5 (ascii_bytes [])
     = Inr [0xd4, 0x1d, 0x8c, 0xd9, 0x8f, 0x00, 0xb2, 0x04, 0xe9, 0x80, 0x09, 0x98, 0xec, 0xf8, 0x42, 0x7e]
   \<and> md5 (ascii_bytes ''abc'')
     = Inr [0x90, 0x01, 0x50, 0x98, 0x3c, 0xd2, 0x4f, 0xb0, 0xd6, 0x96, 0x3f, 0x7d, 0x28, 0xe1, 0x7f, 0x72]
   \<and> md5 (ascii_bytes ''The quick brown fox jumps over the lazy dog'')
     = Inr [0x9e, 0x10, 0x7d, 0x9d, 0x37, 0x2b, 0xb6, 0x82, 0x6b, 0xd8, 0x1d, 0x35, 0x42, 0xa4, 0x19, 0xd6]"
proof -
  have "ascii_bytes [] = []"
    by (simp add: ascii_bytes_def)
  with md5_empty md5_abc md5_fox show ?thesis
    by (simp only: simp_thms)
qed

section \<open>The round constants are the sine table\<close>

text \<open>The series of sine and cosine at 1 and 2, summed to 32 terms.\<close>

lemma taylor_eq:
  "taylor x n = (sin_coeff n * x ^ n, cos_coeff n * x ^ n,
     (\<Sum>m<n. sin_coeff m * x ^ m), (\<Sum>m<n. cos_coeff m * x ^ m))"
  by (induction n) (simp_all add: sin_coeff_Suc cos_coeff_Suc)

lemma taylor_numeral:
  "taylor x (numeral k) =
     (case taylor x (pred_numeral k) of (st, ct, ss, cs) \<Rightarrow>
        (ct * x / numeral k, - st * x / numeral k, ss + st, cs + ct))"
proof -
  have n: "(numeral k :: nat) = Suc (pred_numeral k)"
    by (rule numeral_eq_Suc)
  have r: "(numeral k :: real) = real (Suc (pred_numeral k))"
    by (metis n of_nat_numeral)
  show ?thesis
    by (subst n) (simp only: taylor.simps r)
qed

lemma taylor_1_32:
  "taylor 1 32 = (0, 1 / 263130836933693530167218012160000000,
     364172638960396581472899447242531 / 432780981798838043038187520000000,
     848027998784883070051677094421 / 1569543549184562477137920000000)"
  by (simp add: taylor_numeral)

lemma taylor_2_32:
  "taylor 2 32 = (0, 2 / 122529844256906551386796875,
     111416072092156659441203998 / 122529844256906551386796875,
     - (1644851840971796902337131 / 3952575621190533915703125))"
  by (simp add: taylor_numeral)

lemma sin_sum_1: "(\<Sum>m<32. sin_coeff m * (1 :: real) ^ m)
    = 364172638960396581472899447242531 / 432780981798838043038187520000000"
  using taylor_eq [of 1 32] by (simp only: taylor_1_32 prod.inject)

lemma sin_sum_2: "(\<Sum>m<32. sin_coeff m * (2 :: real) ^ m)
    = 111416072092156659441203998 / 122529844256906551386796875"
  using taylor_eq [of 2 32] by (simp only: taylor_2_32 prod.inject)

lemma cos_sum_2: "(\<Sum>m<32. cos_coeff m * (2 :: real) ^ m)
    = - (1644851840971796902337131 / 3952575621190533915703125)"
  using taylor_eq [of 2 32] by (simp only: taylor_2_32 prod.inject)

lemma fact_32: "(fact 32 :: real) = 263130836933693530167218012160000000"
  by (simp add: fact_numeral)

lemma scale_close:
  fixes t :: real
  assumes t: "\<bar>t - r\<bar> \<le> e" and S: "0 \<le> S"
    and hi: "S * (r + e) \<le> s + 1" and lo: "s - 1 \<le> S * (r - e)"
  shows "\<bar>S * t - s\<bar> \<le> 1"
proof -
  from t have "r - e \<le> t" and "t \<le> r + e"
    by (simp_all add: abs_le_iff)
  with S have "S * (r - e) \<le> S * t" and "S * t \<le> S * (r + e)"
    by (simp_all add: mult_left_mono)
  with hi lo show ?thesis
    by (simp add: abs_le_iff)
qed

lemma rem_bound:
  fixes c :: real
  assumes "\<bar>c\<bar> \<le> 1" and "0 < F" and "0 \<le> P"
  shows "\<bar>c / F * P\<bar> \<le> P / F"
proof -
  have "\<bar>c / F * P\<bar> = \<bar>c\<bar> * (P / F)"
    using assms(2,3) by (simp add: abs_mult)
  also have "\<dots> \<le> 1 * (P / F)"
    using assms by (intro mult_right_mono) simp_all
  finally show ?thesis
    by simp
qed

lemma sin1_close: "\<bar>real_of_int fx * sin 1 - real_of_int sin1_fx\<bar> \<le> 1"
proof -
  have "\<bar>sin (1 :: real) - 364172638960396581472899447242531 / 432780981798838043038187520000000\<bar>
      \<le> 1 / 263130836933693530167218012160000000"
    using Maclaurin_sin_bound [of 1 32] by (simp only: sin_sum_1 fact_32) simp
  then show ?thesis
    by (rule scale_close) (simp_all add: fx_def sin1_fx_def)
qed

lemma sin2_close: "\<bar>real_of_int fx * sin 2 - real_of_int sin2_fx\<bar> \<le> 1"
proof -
  have "\<bar>sin (2 :: real) - 111416072092156659441203998 / 122529844256906551386796875\<bar>
      \<le> 4294967296 / 263130836933693530167218012160000000"
    using Maclaurin_sin_bound [of 2 32] by (simp only: sin_sum_2 fact_32) simp
  then show ?thesis
    by (rule scale_close) (simp_all add: fx_def sin2_fx_def)
qed

lemma cos2_close: "\<bar>real_of_int fx * (2 * cos 2) - real_of_int cos2x2_fx\<bar> \<le> 1"
proof -
  obtain t :: real where
    c: "cos 2 = (\<Sum>m<32. cos_coeff m * 2 ^ m) + (cos (t + 1 / 2 * real 32 * pi) / fact 32) * 2 ^ 32"
    using Maclaurin_cos_expansion [of 2 32] by blast
  have "\<bar>cos (t + 1 / 2 * real 32 * pi) / fact 32 * 2 ^ 32\<bar> \<le> 2 ^ 32 / fact 32"
    by (rule rem_bound) simp_all
  with c have "\<bar>cos (2 :: real) - - (1644851840971796902337131 / 3952575621190533915703125)\<bar>
      \<le> 2 ^ 32 / 263130836933693530167218012160000000"
    unfolding cos_sum_2 fact_32 by linarith
  then have "\<bar>2 * cos (2 :: real) - 2 * - (1644851840971796902337131 / 3952575621190533915703125)\<bar>
      \<le> 2 * (2 ^ 32 / 263130836933693530167218012160000000)"
    by linarith
  then show ?thesis
    by (rule scale_close) (simp_all add: fx_def cos2x2_fx_def)
qed

text \<open>The recurrence and the check are sound.\<close>

lemma fx_pos: "0 < real_of_int fx"
  by (simp add: fx_def)

lemma cos2x2_small: "\<bar>real_of_int cos2x2_fx\<bar> \<le> real_of_int fx"
  by (simp add: fx_def cos2x2_fx_def)

lemma sin_step2: "sin (x + 2) = 2 * cos 2 * sin x - sin (x - 2)" for x :: real
  by (simp add: sin_add sin_diff)

lemma fx_next_sound:
  assumes a: "fx_near (x - 2) a" and c: "fx_near x c"
  shows "fx_near (x + 2) (fx_next a c)"
proof -
  define S where "S = real_of_int fx"
  define K where "K = 2 * cos (2 :: real)"
  define k where "k = real_of_int cos2x2_fx"
  define sa where "sa = real_of_int (fst a)"
  define sc where "sc = real_of_int (fst c)"
  define ea where "ea = real_of_int (snd a)"
  define ec where "ec = real_of_int (snd c)"
  define q where "q = real_of_int ((cos2x2_fx * fst c) div fx)"
  have S: "0 < S"
    unfolding S_def by (rule fx_pos)
  have kS: "\<bar>k\<bar> \<le> S"
    unfolding k_def S_def by (rule cos2x2_small)
  have Kk: "\<bar>S * K - k\<bar> \<le> 1"
    unfolding S_def K_def k_def by (rule cos2_close)
  have na: "\<bar>S * sin (x - 2) - sa\<bar> \<le> ea"
    using a by (simp add: fx_near_def S_def sa_def ea_def)
  have nc: "\<bar>S * sin x - sc\<bar> \<le> ec"
    using c by (simp add: fx_near_def S_def sc_def ec_def)
  have ec0: "0 \<le> ec"
    using nc by linarith
  have "q = real_of_int \<lfloor>real_of_int (cos2x2_fx * fst c) / real_of_int fx\<rfloor>"
    by (simp only: q_def floor_divide_of_int_eq)
  then have q: "q \<le> k * sc / S" "k * sc / S < q + 1"
    by (simp_all add: k_def sc_def S_def)
  have split: "S * K * sin x - k * sc / S = sin x * (S * K - k) + k / S * (S * sin x - sc)"
    using S by (simp add: field_simps)
  have "\<bar>sin x * (S * K - k)\<bar> \<le> 1 * 1"
    unfolding abs_mult by (intro mult_mono abs_sin_le_one Kk) simp_all
  moreover have "\<bar>k / S * (S * sin x - sc)\<bar> \<le> 1 * ec"
    unfolding abs_mult using kS S nc by (intro mult_mono) (simp_all add: abs_le_iff field_simps)
  ultimately have t: "\<bar>S * K * sin x - k * sc / S\<bar> \<le> 1 + ec"
    unfolding split by linarith
  have "S * sin (x + 2) = S * K * sin x - S * sin (x - 2)"
    by (simp add: sin_step2 K_def algebra_simps)
  then have "S * sin (x + 2) - (q - sa)
      = (S * K * sin x - k * sc / S) + (k * sc / S - q) - (S * sin (x - 2) - sa)"
    by simp
  with t q na have "\<bar>S * sin (x + 2) - (q - sa)\<bar> \<le> ea + ec + 2"
    by linarith
  then show ?thesis
    by (simp add: fx_near_def fx_next_def S_def q_def sa_def ea_def ec_def)
qed

lemma fx_ok_sound:
  assumes n: "fx_near x p" and ok: "fx_ok p k"
  shows "\<lfloor>2 ^ 32 * \<bar>sin x\<bar>\<rfloor> = k"
proof -
  obtain s e where p: "p = (s, e)"
    by (cases p)
  define S where "S = real_of_int fx"
  have S: "0 < S"
    unfolding S_def by (rule fx_pos)
  have lo: "real_of_int (s - e) \<le> S * sin x" and hi: "S * sin x \<le> real_of_int (s + e)"
    using n by (simp_all add: fx_near_def p S_def abs_le_iff)
  show ?thesis
  proof (cases "0 < s - e")
    case True
    with ok have "k * fx \<le> 2 ^ 32 * (s - e)" and "2 ^ 32 * (s + e) < (k + 1) * fx"
      by (simp_all add: fx_ok_def p)
    then have "real_of_int (k * fx) \<le> real_of_int (2 ^ 32 * (s - e))"
      and "real_of_int (2 ^ 32 * (s + e)) < real_of_int ((k + 1) * fx)"
      by (simp_all only: of_int_le_iff of_int_less_iff)
    then have k1: "real_of_int k * S \<le> 2 ^ 32 * real_of_int (s - e)"
      and k2: "2 ^ 32 * real_of_int (s + e) < (real_of_int k + 1) * S"
      by (simp_all add: S_def)
    from True lo have "0 < S * sin x"
      by simp
    with S have pos: "0 < sin x"
      by (simp add: zero_less_mult_iff)
    from k1 lo have "real_of_int k * S \<le> (2 ^ 32 * sin x) * S"
      by (simp add: algebra_simps)
    with S have l: "real_of_int k \<le> 2 ^ 32 * sin x"
      by (simp only: mult_le_cancel_right_pos)
    from k2 hi have "(2 ^ 32 * sin x) * S < (real_of_int k + 1) * S"
      by (simp add: algebra_simps)
    with S have u: "2 ^ 32 * sin x < real_of_int k + 1"
      by (simp only: mult_less_cancel_right_pos)
    from l u pos show ?thesis
      by (intro floor_unique) simp_all
  next
    case False
    with ok have neg: "s + e < 0" and "k * fx \<le> 2 ^ 32 * (- s - e)"
      and "2 ^ 32 * (e - s) < (k + 1) * fx"
      by (simp_all add: fx_ok_def p)
    then have "real_of_int (k * fx) \<le> real_of_int (2 ^ 32 * (- s - e))"
      and "real_of_int (2 ^ 32 * (e - s)) < real_of_int ((k + 1) * fx)"
      by (simp_all only: of_int_le_iff of_int_less_iff)
    then have k1: "real_of_int k * S \<le> 2 ^ 32 * (- real_of_int (s + e))"
      and k2: "2 ^ 32 * (- real_of_int (s - e)) < (real_of_int k + 1) * S"
      by (simp_all add: S_def)
    from neg hi have "S * sin x < 0"
      by simp
    with S have sneg: "sin x < 0"
      by (simp add: mult_less_0_iff)
    from k1 hi have "real_of_int k * S \<le> (2 ^ 32 * - sin x) * S"
      by (simp add: algebra_simps)
    with S have l: "real_of_int k \<le> 2 ^ 32 * - sin x"
      by (simp only: mult_le_cancel_right_pos)
    from k2 lo have "(2 ^ 32 * - sin x) * S < (real_of_int k + 1) * S"
      by (simp add: algebra_simps)
    with S have u: "2 ^ 32 * - sin x < real_of_int k + 1"
      by (simp only: mult_less_cancel_right_pos)
    from l u sneg show ?thesis
      by (intro floor_unique) simp_all
  qed
qed

lemma fx_check_sound:
  "fx_near (x - 3) a \<Longrightarrow> fx_near (x - 2) b \<Longrightarrow> fx_near (x - 1) c \<Longrightarrow> fx_near x d
     \<Longrightarrow> fx_check a b c d ks \<Longrightarrow> j < length ks
     \<Longrightarrow> \<lfloor>2 ^ 32 * \<bar>sin (x + real j)\<bar>\<rfloor> = uint (ks ! j)"
proof (induction ks arbitrary: x a b c d j)
  case Nil
  then show ?case by simp
next
  case (Cons k ks)
  from Cons.prems(5) have ok: "fx_ok d (uint k)" and rest: "fx_check b c d (fx_next a c) ks"
    by simp_all
  show ?case
  proof (cases j)
    case 0
    with fx_ok_sound [OF Cons.prems(4) ok] show ?thesis
      by simp
  next
    case (Suc i)
    have "fx_near (x - 1 + 2) (fx_next a c)"
      using Cons.prems(1,3) by (intro fx_next_sound) (simp_all add: algebra_simps)
    then have n: "fx_near (x + 1) (fx_next a c)"
      by (simp add: algebra_simps)
    have "\<lfloor>2 ^ 32 * \<bar>sin (x + 1 + real i)\<bar>\<rfloor> = uint (ks ! i)"
    proof (rule Cons.IH [OF _ _ _ n rest])
      show "fx_near (x + 1 - 3) b" using Cons.prems(2) by (simp add: algebra_simps)
      show "fx_near (x + 1 - 2) c" using Cons.prems(3) by (simp add: algebra_simps)
      show "fx_near (x + 1 - 1) d" using Cons.prems(4) by simp
      show "i < length ks" using Cons.prems(6) Suc by simp
    qed
    with Suc show ?thesis
      by (simp add: algebra_simps)
  qed
qed

lemma sine_table_sound:
  assumes "sine_table_ok ks" and "j < length ks"
  shows "uint (ks ! j) = \<lfloor>2 ^ 32 * \<bar>sin (real (j + 1))\<bar>\<rfloor>"
proof -
  have m2: "fx_near (1 - 3) (- sin2_fx, 1)"
    using sin2_close by (simp add: fx_near_def abs_le_iff)
  have m1: "fx_near (1 - 2) (- sin1_fx, 1)"
    using sin1_close by (simp add: fx_near_def abs_le_iff)
  have z: "fx_near (1 - 1) (0, 0)"
    by (simp add: fx_near_def)
  have p1: "fx_near 1 (sin1_fx, 1)"
    using sin1_close by (simp add: fx_near_def)
  have "\<lfloor>2 ^ 32 * \<bar>sin (1 + real j)\<bar>\<rfloor> = uint (ks ! j)"
    using m2 m1 z p1 assms(1) [unfolded sine_table_ok_def] assms(2) by (rule fx_check_sound)
  then show ?thesis
    by (simp add: add.commute)
qed

text \<open>The check succeeds on the table of the source.\<close>

lemma check_table: "sine_table_ok MD5_K"
  by (simp add: sine_table_ok_def MD5_K_def fx_ok_def fx_next_def fx_def sin1_fx_def sin2_fx_def
      cos2x2_fx_def)

lemma length_MD5_K: "length MD5_K = 64"
  by (simp add: MD5_K_def)

text \<open>
  Claim C3: the round-constant table has 64 entries, each an unsigned 32-bit value, and
  for every index \<open>i\<close> in 0..63 the entry at \<open>i\<close> is \<open>floor (2^32 * |sin (i + 1)|)\<close>,
  the argument in radians. The table is a constant of the module: no method writes to it.
\<close>

theorem MD5_K_is_sine_table:
  "length MD5_K = 64 \<and> (\<forall>i<64. uint (MD5_K ! i) = \<lfloor>2 ^ 32 * \<bar>sin (real (i + 1))\<bar>\<rfloor>)"
  using sine_table_sound [OF check_table] by (simp add: length_MD5_K)

theorem MD5_K_is_sine_table_witness:
  "(0 :: nat) < 64 \<and> uint (MD5_K ! 0) = \<lfloor>2 ^ 32 * \<bar>sin (real (0 + 1))\<bar>\<rfloor>
   \<and> uint (MD5_K ! 0) = 3614090360"
proof -
  have i: "(0 :: nat) < 64"
    by simp
  have v: "uint (MD5_K ! 0) = 3614090360"
    by (simp add: MD5_K_def)
  from MD5_K_is_sine_table i v show ?thesis
    by blast
qed

end
